theory Spec2Isabelle
  imports Complex_Main "HOL-Library.Sublist" "HOL-Library.AList"
begin

section \<open>The runtime: strings\<close>

text \<open>
  The server is \<^verbatim>\<open>src/server/index.js\<close>. A JavaScript string is modelled as a
  \<^typ>\<open>string\<close> holding its UTF-8 bytes: every keyword the server searches for is
  ASCII, and an ASCII byte never occurs inside the encoding of another character, so
  searching the bytes is searching the text. The characters outside ASCII that the server
  writes itself (the bullet and the two pictographs of the summary and of the help text)
  are given by their bytes.

  \<^verbatim>\<open>toLowerCase\<close> and \<^verbatim>\<open>toUpperCase\<close> are modelled on the ASCII
  letters; the bytes of any other character are left as they are. (The two characters
  outside ASCII whose lower case contains an ASCII letter, U+0130 and U+212A, are outside
  this model.)
\<close>

definition toLowerCase_char :: "char \<Rightarrow> char" where
  "toLowerCase_char c =
     (let n = (of_char c :: nat) in if 65 \<le> n \<and> n \<le> 90 then char_of (n + 32) else c)"

definition toLowerCase :: "string \<Rightarrow> string" where
  "toLowerCase s = map toLowerCase_char s"

definition toUpperCase_char :: "char \<Rightarrow> char" where
  "toUpperCase_char c =
     (let n = (of_char c :: nat) in if 97 \<le> n \<and> n \<le> 122 then char_of (n - 32) else c)"

definition toUpperCase :: "string \<Rightarrow> string" where
  "toUpperCase s = map toUpperCase_char s"

text \<open>\<^verbatim>\<open>s.includes(t)\<close>: \<open>t\<close> occurs in \<open>s\<close> as a contiguous run.\<close>

fun str_includes :: "string \<Rightarrow> string \<Rightarrow> bool" where
  "str_includes [] t = (t = [])"
| "str_includes (c # cs) t = (prefix t (c # cs) \<or> str_includes cs t)"

text \<open>\<^verbatim>\<open>s.replace(p, r)\<close> with a string pattern replaces the first occurrence only.\<close>

fun replace :: "string \<Rightarrow> string \<Rightarrow> string \<Rightarrow> string" where
  "replace [] p r = (if p = [] then r else [])"
| "replace (c # cs) p r =
     (if prefix p (c # cs) then r @ drop (length p) (c # cs) else c # replace cs p r)"

text \<open>The decimal digits of a natural number, as a template literal prints a length.\<close>

definition digit_char :: "nat \<Rightarrow> char" where
  "digit_char d = char_of (48 + d)"

fun digits :: "nat \<Rightarrow> string" where
  "digits n = (if n < 10 then [digit_char n] else digits (n div 10) @ [digit_char (n mod 10)])"

declare digits.simps [simp del]

section \<open>The runtime: numbers\<close>

text \<open>
  A JavaScript number is an IEEE 754 double. A finite double is modelled by the rational
  it denotes, so that every operation is the exact operation followed by rounding to the
  nearest double (ties to even), as the standard defines it.
\<close>

datatype number = NaN | PInf | NInf | NegZero | Fin rat

definition pow2 :: "int \<Rightarrow> rat" where
  "pow2 k = (if 0 \<le> k then 2 ^ nat k else 1 / 2 ^ nat (- k))"

function bitlen :: "int \<Rightarrow> int" where
  "bitlen n = (if n \<le> 0 then 0 else 1 + bitlen (n div 2))"
  by pat_completeness auto
termination
  by (relation "measure nat") auto

declare bitlen.simps [simp del]

text \<open>For \<open>a > 0\<close>, the exponent \<open>e\<close> with \<open>2 ^ e \<le> a < 2 ^ (e + 1)\<close>.\<close>

definition floor_log2 :: "rat \<Rightarrow> int" where
  "floor_log2 a =
     (let (n, d) = quotient_of a;
          k = bitlen n - bitlen d
      in if pow2 k \<le> a then k else k - 1)"

definition round_half_even :: "rat \<Rightarrow> int" where
  "round_half_even x =
     (let f = \<lfloor>x\<rfloor>; r = x - of_int f
      in if r < 1 / 2 then f else if 1 / 2 < r then f + 1 else if even f then f else f + 1)"

text \<open>
  Rounding a rational to a double: 53 significant bits, so the significand \<open>m\<close> is the
  magnitude counted in units of \<open>2 ^ (e - 52)\<close>; exponents from \<open>-1022\<close> (below it the
  doubles are subnormal, with the spacing \<open>2 ^ -1074\<close>); overflow to the infinities when
  the rounded magnitude reaches \<open>2 ^ 1024\<close>, that is when \<open>e\<close> is above 1023 or the
  significand rounds up to \<open>2 ^ 53\<close> at \<open>e = 1023\<close>; an underflow to zero keeps the sign.
\<close>

definition round_double :: "rat \<Rightarrow> number" where
  "round_double q =
     (if q = 0 then Fin 0
      else
        let a = \<bar>q\<bar>;
            e = max (floor_log2 a) (- 1022);
            m = round_half_even (a / pow2 (e - 52))
        in if 1024 \<le> e \<or> (e = 1023 \<and> m = 2 ^ 53) then (if 0 < q then PInf else NInf)
           else if m = 0 then (if 0 < q then Fin 0 else NegZero)
           else Fin ((if 0 < q then 1 else - 1) * of_int m * pow2 (e - 52)))"

definition is_double :: "rat \<Rightarrow> bool" where
  "is_double q = (round_double q = Fin q)"

fun is_neg :: "number \<Rightarrow> bool" where
  "is_neg NInf = True"
| "is_neg NegZero = True"
| "is_neg (Fin q) = (q < 0)"
| "is_neg _ = False"

fun is_zero :: "number \<Rightarrow> bool" where
  "is_zero NegZero = True"
| "is_zero (Fin q) = (q = 0)"
| "is_zero _ = False"

fun is_inf :: "number \<Rightarrow> bool" where
  "is_inf PInf = True"
| "is_inf NInf = True"
| "is_inf _ = False"

fun num_val :: "number \<Rightarrow> rat" where
  "num_val (Fin q) = q"
| "num_val _ = 0"

definition signed_inf :: "bool \<Rightarrow> number" where
  "signed_inf neg = (if neg then NInf else PInf)"

definition signed_zero :: "bool \<Rightarrow> number" where
  "signed_zero neg = (if neg then NegZero else Fin 0)"

fun js_neg :: "number \<Rightarrow> number" where
  "js_neg NaN = NaN"
| "js_neg PInf = NInf"
| "js_neg NInf = PInf"
| "js_neg NegZero = Fin 0"
| "js_neg (Fin q) = (if q = 0 then NegZero else Fin (- q))"

text \<open>\<^verbatim>\<open>x + y\<close>, and \<^verbatim>\<open>x - y\<close> as \<open>x + (- y)\<close>.\<close>

definition js_add :: "number \<Rightarrow> number \<Rightarrow> number" where
  "js_add x y =
     (if x = NaN \<or> y = NaN then NaN
      else if is_inf x then (if is_inf y \<and> x \<noteq> y then NaN else x)
      else if is_inf y then y
      else if is_zero x \<and> is_zero y then signed_zero (is_neg x \<and> is_neg y)
      else round_double (num_val x + num_val y))"

definition js_sub :: "number \<Rightarrow> number \<Rightarrow> number" where
  "js_sub x y = js_add x (js_neg y)"

text \<open>\<^verbatim>\<open>x * y\<close> and \<^verbatim>\<open>x / y\<close>: the sign of a zero or of an infinity is the
  exclusive or of the operands' signs.\<close>

definition js_mul :: "number \<Rightarrow> number \<Rightarrow> number" where
  "js_mul x y =
     (if x = NaN \<or> y = NaN then NaN
      else if is_inf x \<or> is_inf y then
        (if is_zero x \<or> is_zero y then NaN else signed_inf (is_neg x \<noteq> is_neg y))
      else if is_zero x \<or> is_zero y then signed_zero (is_neg x \<noteq> is_neg y)
      else round_double (num_val x * num_val y))"

definition js_div :: "number \<Rightarrow> number \<Rightarrow> number" where
  "js_div x y =
     (if x = NaN \<or> y = NaN then NaN
      else if is_inf x then (if is_inf y then NaN else signed_inf (is_neg x \<noteq> is_neg y))
      else if is_inf y then signed_zero (is_neg x \<noteq> is_neg y)
      else if is_zero y then (if is_zero x then NaN else signed_inf (is_neg x \<noteq> is_neg y))
      else if is_zero x then signed_zero (is_neg x \<noteq> is_neg y)
      else round_double (num_val x / num_val y))"

text \<open>\<^verbatim>\<open>x > 0\<close> and \<^verbatim>\<open>x < 0\<close>: false on \<open>NaN\<close> and on both zeros.\<close>

fun js_gt0 :: "number \<Rightarrow> bool" where
  "js_gt0 PInf = True"
| "js_gt0 (Fin q) = (0 < q)"
| "js_gt0 _ = False"

fun js_lt0 :: "number \<Rightarrow> bool" where
  "js_lt0 NInf = True"
| "js_lt0 (Fin q) = (q < 0)"
| "js_lt0 _ = False"

definition isNaN :: "number \<Rightarrow> bool" where
  "isNaN x = (x = NaN)"

fun Math_floor :: "number \<Rightarrow> number" where
  "Math_floor (Fin q) = Fin (of_int \<lfloor>q\<rfloor>)"
| "Math_floor x = x"

text \<open>
  \<^verbatim>\<open>Number.prototype.toString\<close> (the shortest decimal that reads back as the
  same double) belongs to the runtime. The model takes it as a parameter, written
  \<open>ts\<close> below, wherever the server prints a number.

  \<^verbatim>\<open>x.toFixed(1)\<close>: the values that are not finite print by name; the sign is
  printed for a negative value (not for \<open>-0\<close>); a magnitude from \<open>10 ^ 21\<close> on prints
  as \<open>ts\<close> prints it; any other magnitude prints the integer \<open>n\<close> nearest to ten
  times it (the larger one of two), with a point before its last digit.
\<close>

definition toFixed1 :: "(number \<Rightarrow> string) \<Rightarrow> number \<Rightarrow> string" where
  "toFixed1 ts x =
     (case x of
        NaN \<Rightarrow> ''NaN''
      | PInf \<Rightarrow> ''Infinity''
      | NInf \<Rightarrow> ''-Infinity''
      | NegZero \<Rightarrow> ''0.0''
      | Fin q \<Rightarrow>
          (let s = (if q < 0 then ''-'' else []); a = \<bar>q\<bar>
           in if 10 ^ 21 \<le> a then s @ ts (Fin a)
              else let n = nat \<lfloor>a * 10 + 1 / 2\<rfloor>
                   in s @ digits (n div 10) @ ''.'' @ digits (n mod 10)))"

subsection \<open>parseFloat\<close>

text \<open>
  \<^verbatim>\<open>parseFloat(s)\<close> skips leading white space and reads the longest prefix that is
  a decimal literal: an optional sign, then \<^verbatim>\<open>Infinity\<close>, or digits with an optional
  fraction, or a point and digits, then an optional exponent. What follows the literal
  is ignored; with no literal at all the result is \<open>NaN\<close>.
\<close>

definition white_space :: "string list" where
  "white_space =
     [[CHR 0x09], [CHR 0x0A], [CHR 0x0B], [CHR 0x0C], [CHR 0x0D], [CHR 0x20],
      [CHR 0xC2, CHR 0xA0], [CHR 0xE1, CHR 0x9A, CHR 0x80],
      [CHR 0xE2, CHR 0x80, CHR 0x80], [CHR 0xE2, CHR 0x80, CHR 0x81],
      [CHR 0xE2, CHR 0x80, CHR 0x82], [CHR 0xE2, CHR 0x80, CHR 0x83],
      [CHR 0xE2, CHR 0x80, CHR 0x84], [CHR 0xE2, CHR 0x80, CHR 0x85],
      [CHR 0xE2, CHR 0x80, CHR 0x86], [CHR 0xE2, CHR 0x80, CHR 0x87],
      [CHR 0xE2, CHR 0x80, CHR 0x88], [CHR 0xE2, CHR 0x80, CHR 0x89],
      [CHR 0xE2, CHR 0x80, CHR 0x8A], [CHR 0xE2, CHR 0x80, CHR 0xA8],
      [CHR 0xE2, CHR 0x80, CHR 0xA9], [CHR 0xE2, CHR 0x80, CHR 0xAF],
      [CHR 0xE2, CHR 0x81, CHR 0x9F], [CHR 0xE3, CHR 0x80, CHR 0x80],
      [CHR 0xEF, CHR 0xBB, CHR 0xBF]]"

definition ws_prefix :: "string \<Rightarrow> nat" where
  "ws_prefix s = (case find (\<lambda>w. prefix w s) white_space of None \<Rightarrow> 0 | Some w \<Rightarrow> length w)"

function trimStart :: "string \<Rightarrow> string" where
  "trimStart s = (if ws_prefix s = 0 \<or> s = [] then s else trimStart (drop (ws_prefix s) s))"
  by pat_completeness auto
termination
  by (relation "measure length") auto

declare trimStart.simps [simp del]

definition is_digit :: "char \<Rightarrow> bool" where
  "is_digit c = (48 \<le> (of_char c :: nat) \<and> (of_char c :: nat) \<le> 57)"

definition dec_value :: "string \<Rightarrow> nat" where
  "dec_value ds = foldl (\<lambda>n c. 10 * n + (of_char c - 48)) 0 ds"

text \<open>The exponent part: \<open>e\<close> or \<open>E\<close>, an optional sign, and at least one digit;
  anything else is no exponent.\<close>

definition exponent_part :: "string \<Rightarrow> int" where
  "exponent_part s =
     (case s of
        [] \<Rightarrow> 0
      | c # r \<Rightarrow>
          if c = CHR ''e'' \<or> c = CHR ''E'' then
            (let neg = (r \<noteq> [] \<and> hd r = CHR ''-'');
                 r' = (if r \<noteq> [] \<and> (hd r = CHR ''+'' \<or> hd r = CHR ''-'') then tl r else r);
                 ds = takeWhile is_digit r'
             in if ds = [] then 0 else if neg then - int (dec_value ds) else int (dec_value ds))
          else 0)"

definition pow10 :: "int \<Rightarrow> rat" where
  "pow10 k = (if 0 \<le> k then 10 ^ nat k else 1 / 10 ^ nat (- k))"

definition parse_unsigned :: "bool \<Rightarrow> string \<Rightarrow> number" where
  "parse_unsigned neg s =
     (if prefix ''Infinity'' s then signed_inf neg
      else
        let ip = takeWhile is_digit s;
            r1 = dropWhile is_digit s;
            fp = (if r1 \<noteq> [] \<and> hd r1 = CHR ''.'' then takeWhile is_digit (tl r1) else []);
            r2 = (if r1 \<noteq> [] \<and> hd r1 = CHR ''.'' then dropWhile is_digit (tl r1) else r1)
        in if ip = [] \<and> fp = [] then NaN
           else
             let mv = of_nat (dec_value (ip @ fp)) * pow10 (exponent_part r2 - int (length fp))
             in if mv = 0 then signed_zero neg
                else round_double (if neg then - mv else mv))"

definition parseFloat_string :: "string \<Rightarrow> number" where
  "parseFloat_string s =
     (let t = trimStart s
      in case t of
           [] \<Rightarrow> NaN
         | c # r \<Rightarrow>
             if c = CHR ''-'' then parse_unsigned True r
             else if c = CHR ''+'' then parse_unsigned False r
             else parse_unsigned False t)"

section \<open>The data model\<close>

text \<open>
  \<^verbatim>\<open>healthMetricSchema\<close> admits ten strings as the type of a metric, so the type of
  a stored record is one of them; a value is a number, a string or an object.
\<close>

datatype metric_type =
  Weight | Height | BloodPressure | HeartRate | BloodSugar
  | Temperature | SleepHours | Steps | WaterIntake | ExerciseMinutes

fun type_name :: "metric_type \<Rightarrow> string" where
  "type_name Weight = ''weight''"
| "type_name Height = ''height''"
| "type_name BloodPressure = ''blood_pressure''"
| "type_name HeartRate = ''heart_rate''"
| "type_name BloodSugar = ''blood_sugar''"
| "type_name Temperature = ''temperature''"
| "type_name SleepHours = ''sleep_hours''"
| "type_name Steps = ''steps''"
| "type_name WaterIntake = ''water_intake''"
| "type_name ExerciseMinutes = ''exercise_minutes''"

text \<open>
  The server makes a string of a value in two places, inside a template literal and as the
  argument of \<^verbatim>\<open>parseFloat\<close>. An object that arrived as JSON has no method of its
  own, so the conversion has two outcomes. It calls the inherited \<^verbatim>\<open>toString\<close> and
  gives \<^verbatim>\<open>[object Object]\<close>; or, when the object has a key \<^verbatim>\<open>toString\<close> of its
  own (whose value is no function), it finds nothing to call that returns a primitive and
  throws a \<^verbatim>\<open>TypeError\<close>. \<open>VObj True\<close> is an object of the first kind, such as
  \<^verbatim>\<open>{"systolic": 120, "diastolic": 80}\<close>; \<open>VObj False\<close> is one of the second kind, such
  as \<^verbatim>\<open>{"toString": 1}\<close>. The schema accepts both.
\<close>

datatype jsvalue = VNum number | VStr string | VObj bool

datatype error = TypeError

fun printable :: "jsvalue \<Rightarrow> bool" where
  "printable (VObj p) = p"
| "printable _ = True"

text \<open>The string of a value whose conversion returns.\<close>

fun show_value :: "(number \<Rightarrow> string) \<Rightarrow> jsvalue \<Rightarrow> string" where
  "show_value ts (VNum n) = ts n"
| "show_value ts (VStr s) = s"
| "show_value ts (VObj p) = ''[object Object]''"

text \<open>The conversion itself, as a template literal \<^verbatim>\<open>${v}\<close> performs it.\<close>

definition ToString :: "(number \<Rightarrow> string) \<Rightarrow> jsvalue \<Rightarrow> error + string" where
  "ToString ts v = (if printable v then Inr (show_value ts v) else Inl TypeError)"

text \<open>
  \<^verbatim>\<open>parseFloat(v)\<close> first turns \<open>v\<close> into a string, which may throw, and then reads
  the string: \<open>parseFloat\<close> is the number read when the conversion returns, and
  \<open>parseFloat_call\<close> is the call. For a number the string reads back as the same number,
  except that \<open>-0\<close> prints as \<^verbatim>\<open>0\<close>.
\<close>

fun parseFloat :: "jsvalue \<Rightarrow> number" where
  "parseFloat (VNum n) = (if n = NegZero then Fin 0 else n)"
| "parseFloat (VStr s) = parseFloat_string s"
| "parseFloat (VObj p) = NaN"

definition parseFloat_call :: "jsvalue \<Rightarrow> error + number" where
  "parseFloat_call v = (if printable v then Inr (parseFloat v) else Inl TypeError)"

text \<open>A stored record; times are milliseconds since the epoch.\<close>

record healthMetric =
  m_id :: string
  m_type :: metric_type
  m_value :: jsvalue
  m_unit :: string
  m_timestamp :: int
  m_notes :: "string option"
  m_userId :: "string option"

datatype role = user | bot

record chatTurn =
  c_type :: role
  c_message :: "string option"
  c_timestamp :: int

section \<open>HealthChatbot\<close>

definition dq :: string where
  "dq = [CHR 0x22]"

definition bullet :: string where
  "bullet = [CHR 0xE2, CHR 0x80, CHR 0xA2]"

definition chart_sign :: string where
  "chart_sign = [CHR 0xF0, CHR 0x9F, CHR 0x93, CHR 0x8A]"

definition bulb_sign :: string where
  "bulb_sign = [CHR 0xF0, CHR 0x9F, CHR 0x92, CHR 0xA1]"

definition greeting :: "string list" where
  "greeting =
     [''Hello! I'm your health assistant. How can I help you track your health today?'',
      ''Hi there! I'm here to help you monitor your health metrics. What would you like to know?'',
      ''Welcome! I can help you track weight, blood pressure, heart rate, and more. How can I assist you?'']"

definition weight_advice :: string where
  "weight_advice =
     ''For healthy weight management: eat balanced meals, stay hydrated, exercise regularly, and get adequate sleep.''"

definition blood_pressure_advice :: string where
  "blood_pressure_advice =
     ''To maintain healthy blood pressure: reduce sodium intake, exercise regularly, manage stress, and limit alcohol.''"

definition heart_rate_advice :: string where
  "heart_rate_advice =
     ''To improve heart health: do cardio exercises, manage stress, get quality sleep, and maintain a healthy diet.''"

definition no_weight_data :: string where
  "no_weight_data =
     ''I don't have any weight data recorded yet. Would you like to log your weight?''"

definition no_blood_pressure_data :: string where
  "no_blood_pressure_data =
     ''No blood pressure data found. Would you like to record your blood pressure?''"

definition no_heart_rate_data :: string where
  "no_heart_rate_data =
     ''No heart rate data recorded. Would you like to log your heart rate?''"

definition no_health_data :: string where
  "no_health_data =
     ''You haven't recorded any health data yet. Start by logging some metrics like weight, blood pressure, or heart rate!''"

definition help_text :: string where
  "help_text =
     ''I can help you:\<newline>'' @ bullet
     @ '' Track health metrics (weight, blood pressure, heart rate, blood sugar, etc.)\<newline>''
     @ bullet @ '' Provide health tips and advice\<newline>''
     @ bullet @ '' Give you summaries of your health data\<newline>''
     @ bullet @ '' Answer questions about your health trends\<newline>\<newline>''
     @ ''Try saying things like '' @ dq @ ''log my weight'' @ dq @ '' or '' @ dq
     @ ''show my blood pressure'' @ dq @ '' or '' @ dq @ ''give me a health summary'' @ dq"

definition default_response :: "string \<Rightarrow> string" where
  "default_response message =
     ''I understand you're asking about '' @ dq @ message @ dq
     @ ''. I can help you track health metrics, provide health advice, and analyze your data. Try asking me to ''
     @ dq @ ''log weight'' @ dq @ '', '' @ dq @ ''show blood pressure'' @ dq @ '', or '' @ dq
     @ ''give health summary'' @ dq
     @ ''. What specific health information would you like to discuss?''"

text \<open>
  \<^verbatim>\<open>xs[i]\<close> for a number \<open>i\<close>: the element when \<open>i\<close> is an integer inside the
  array (\<open>-0\<close> names the key \<^verbatim>\<open>0\<close>), and \<^verbatim>\<open>undefined\<close>, here \<open>None\<close>, otherwise.
\<close>

definition array_get :: "'a list \<Rightarrow> number \<Rightarrow> 'a option" where
  "array_get xs i =
     (case i of
        Fin q \<Rightarrow>
          if of_int \<lfloor>q\<rfloor> = q \<and> 0 \<le> q \<and> nat \<lfloor>q\<rfloor> < length xs then Some (xs ! nat \<lfloor>q\<rfloor>) else None
      | NegZero \<Rightarrow> (case xs of [] \<Rightarrow> None | x # _ \<Rightarrow> Some x)
      | _ \<Rightarrow> None)"

text \<open>\<^verbatim>\<open>getRandomResponse\<close>; \<open>rnd\<close> is what \<^verbatim>\<open>Math.random()\<close> returns.\<close>

definition getRandomResponse :: "number \<Rightarrow> string list \<Rightarrow> string option" where
  "getRandomResponse rnd responses =
     array_get responses (Math_floor (js_mul rnd (Fin (of_nat (length responses)))))"

text \<open>
  \<^verbatim>\<open>generateHealthSummary\<close>. The object \<^verbatim>\<open>typeGroups\<close> is a list of keys with
  their arrays, in the order the keys were added; both it and its arrays are local to
  the call.
\<close>

definition typeGroups_push ::
  "(metric_type \<times> healthMetric list) list \<Rightarrow> healthMetric \<Rightarrow> (metric_type \<times> healthMetric list) list"
where
  "typeGroups_push g d =
     (case map_of g (m_type d) of
        None \<Rightarrow> g @ [(m_type d, [d])]
      | Some ds \<Rightarrow> AList.update (m_type d) (ds @ [d]) g)"

definition typeGroups_of :: "healthMetric list \<Rightarrow> (metric_type \<times> healthMetric list) list" where
  "typeGroups_of healthData = foldl typeGroups_push [] healthData"

definition summary_head :: string where
  "summary_head = chart_sign @ '' **Health Summary:**\<newline>\<newline>''"

definition summary_tail :: string where
  "summary_tail =
     ''\<newline>'' @ bulb_sign
     @ '' Keep up the great work tracking your health! Regular monitoring helps you stay on top of your wellness goals.''"

text \<open>
  A function that can throw returns \<open>Inl\<close> the error or \<open>Inr\<close> its result. A template
  literal with the value \<open>v\<close> in it is \<open>map_sum id f (ToString ts v)\<close>, where \<open>f\<close> puts
  the string of the value into the text: it throws where the conversion throws.
\<close>

definition summary_text :: "metric_type \<Rightarrow> string \<Rightarrow> string \<Rightarrow> nat \<Rightarrow> string" where
  "summary_text t v u count =
     bullet @ '' **'' @ toUpperCase (replace (type_name t) ''_'' '' '') @ ''**: ''
     @ v @ '' '' @ u
     @ '' ('' @ digits count @ '' recordings)\<newline>''"

definition summary_line ::
  "(number \<Rightarrow> string) \<Rightarrow> metric_type \<Rightarrow> healthMetric \<Rightarrow> nat \<Rightarrow> error + string"
where
  "summary_line ts t latest count =
     map_sum id (\<lambda>v. summary_text t v (m_unit latest) count) (ToString ts (m_value latest))"

text \<open>An error thrown in the body of \<^verbatim>\<open>forEach\<close> ends the loop and the function.\<close>

definition generateHealthSummary ::
  "(number \<Rightarrow> string) \<Rightarrow> healthMetric list \<Rightarrow> error + string"
where
  "generateHealthSummary ts healthData =
     (let typeGroups = typeGroups_of healthData;
          summary =
            foldl
              (\<lambda>summary (t, data).
                 case summary of
                   Inl e \<Rightarrow> Inl e
                 | Inr text \<Rightarrow>
                     let latest = data ! (length data - 1); count = length data
                     in map_sum id (\<lambda>line. text @ line) (summary_line ts t latest count))
              (Inr summary_head) typeGroups
      in map_sum id (\<lambda>text. text @ summary_tail) summary)"

definition generateResponse ::
  "(number \<Rightarrow> string) \<Rightarrow> number \<Rightarrow> string \<Rightarrow> healthMetric list \<Rightarrow> error + string option"
where
  "generateResponse ts rnd message healthData =
     (let msg = toLowerCase message
      in if str_includes msg ''hello'' \<or> str_includes msg ''hi'' \<or> str_includes msg ''hey''
         then Inr (getRandomResponse rnd greeting)
         else if str_includes msg ''weight'' then
           (let weightData = filter (\<lambda>d. m_type d = Weight) healthData
            in if length weightData > 0 then
                 (let latest = weightData ! (length weightData - 1)
                  in map_sum id
                       (\<lambda>v. Some (''Your latest weight is '' @ v @ '' ''
                                  @ m_unit latest @ ''. '' @ weight_advice))
                       (ToString ts (m_value latest)))
               else Inr (Some no_weight_data))
         else if str_includes msg ''blood pressure'' then
           (let bpData = filter (\<lambda>d. m_type d = BloodPressure) healthData
            in if length bpData > 0 then
                 (let latest = bpData ! (length bpData - 1)
                  in map_sum id
                       (\<lambda>v. Some (''Your latest blood pressure is '' @ v
                                  @ ''. '' @ blood_pressure_advice))
                       (ToString ts (m_value latest)))
               else Inr (Some no_blood_pressure_data))
         else if str_includes msg ''heart rate'' then
           (let hrData = filter (\<lambda>d. m_type d = HeartRate) healthData
            in if length hrData > 0 then
                 (let latest = hrData ! (length hrData - 1)
                  in map_sum id
                       (\<lambda>v. Some (''Your latest heart rate is '' @ v @ '' ''
                                  @ m_unit latest @ ''. '' @ heart_rate_advice))
                       (ToString ts (m_value latest)))
               else Inr (Some no_heart_rate_data))
         else if str_includes msg ''summary'' \<or> str_includes msg ''overview'' then
           (if length healthData = 0 then Inr (Some no_health_data)
            else map_sum id Some (generateHealthSummary ts healthData))
         else if str_includes msg ''help'' \<or> str_includes msg ''what can you do'' then
           Inr (Some help_text)
         else Inr (Some (default_response message)))"

section \<open>The stores\<close>

text \<open>
  \<^verbatim>\<open>healthData\<close> maps a user to an array, and \<^verbatim>\<open>generateHealthInsights\<close> sorts
  arrays in place, so it matters which array is which. The arrays of records live in a
  heap, the list \<open>arrays\<close>: a reference is an index into it, and \<^verbatim>\<open>[]\<close> allocates
  at its end. No statement of the server assigns to a field of a record, so the records
  are values. The arrays of \<^verbatim>\<open>conversations\<close> are only ever appended to and copied,
  so that map holds them directly.
\<close>

type_synonym ref = nat

type_synonym heap = "healthMetric list list"

record server =
  healthData :: "string \<rightharpoonup> ref"
  conversations :: "string \<rightharpoonup> chatTurn list"
  arrays :: heap

definition init :: server where
  "init = \<lparr>healthData = Map.empty, conversations = Map.empty, arrays = []\<rparr>"

definition push :: "heap \<Rightarrow> ref \<Rightarrow> healthMetric \<Rightarrow> heap" where
  "push h a x = h[a := h ! a @ [x]]"

text \<open>\<^verbatim>\<open>Array.prototype.sort\<close> is stable and sorts the array it is called on.\<close>

definition sort_by_timestamp :: "heap \<Rightarrow> ref \<Rightarrow> heap" where
  "sort_by_timestamp h a = h[a := sort_key m_timestamp (h ! a)]"

text \<open>\<^verbatim>\<open>healthData.get(userId) || []\<close>, read.\<close>

definition userData :: "server \<Rightarrow> string \<Rightarrow> healthMetric list" where
  "userData s userId = (case healthData s userId of None \<Rightarrow> [] | Some a \<Rightarrow> arrays s ! a)"

text \<open>\<^verbatim>\<open>req.params.userId || 'default'\<close>.\<close>

definition param_or_default :: "string option \<Rightarrow> string" where
  "param_or_default p = (case p of None \<Rightarrow> ''default'' | Some u \<Rightarrow> if u = [] then ''default'' else u)"

text \<open>What a request reads from its environment: the clock, the id generator and the
  random number generator.\<close>

record env =
  Date_now :: int
  new_Date :: int
  new_Date2 :: int
  uuidv4 :: string
  Math_random :: number

section \<open>The routes\<close>

subsection \<open>GET /api/health/data\<close>

definition get_health_data :: "server \<Rightarrow> string option \<Rightarrow> healthMetric list" where
  "get_health_data s p = userData s (param_or_default p)"

subsection \<open>POST /api/health/data\<close>

text \<open>
  The validation library is not part of the repository: the route is given its verdict,
  \<open>Inl\<close> the message of the error or \<open>Inr\<close> the fields of the body it accepted. The
  default that the schema declares for the timestamp, \<^verbatim>\<open>Joi.date().default(Date.now)\<close>,
  is \<open>schema_timestamp\<close>.
\<close>

record metricInput =
  i_type :: metric_type
  i_value :: jsvalue
  i_unit :: string
  i_timestamp :: "int option"
  i_notes :: "string option"
  i_userId :: "string option"

definition schema_timestamp :: "env \<Rightarrow> metricInput \<Rightarrow> int" where
  "schema_timestamp e v = (case i_timestamp v of None \<Rightarrow> Date_now e | Some t \<Rightarrow> t)"

text \<open>\<^verbatim>\<open>{ id: uuidv4(), ...value, timestamp: new Date() }\<close>: the last key wins.\<close>

definition healthMetric_of :: "env \<Rightarrow> metricInput \<Rightarrow> healthMetric" where
  "healthMetric_of e v =
     \<lparr>m_id = uuidv4 e, m_type = i_type v, m_value = i_value v, m_unit = i_unit v,
      m_timestamp = schema_timestamp e v, m_notes = i_notes v, m_userId = i_userId v\<rparr>
     \<lparr>m_timestamp := new_Date e\<rparr>"

definition post_health_data ::
  "env \<Rightarrow> string + metricInput \<Rightarrow> server \<Rightarrow> server \<times> (string + healthMetric)"
where
  "post_health_data e validated s =
     (case validated of
        Inl error \<Rightarrow> (s, Inl error)
      | Inr v \<Rightarrow>
          let userId = (case i_userId v of None \<Rightarrow> ''default'' | Some u \<Rightarrow> u);
              healthMetric = healthMetric_of e v;
              (a, s1) =
                (case healthData s userId of
                   None \<Rightarrow>
                     (length (arrays s),
                      s\<lparr>healthData := (healthData s)(userId \<mapsto> length (arrays s)),
                        arrays := arrays s @ [[]]\<rparr>)
                 | Some a \<Rightarrow> (a, s))
          in (s1\<lparr>arrays := push (arrays s1) a healthMetric\<rparr>, Inr healthMetric))"

subsection \<open>POST /api/chat\<close>

record chatInput =
  ch_message :: string
  ch_sessionId :: "string option"
  ch_userId :: "string option"

record chatReply =
  r_response :: "string option"
  r_sessionId :: string
  r_conversation :: "chatTurn list"

text \<open>\<^verbatim>\<open>xs.slice(-10)\<close>: a copy of the last ten elements, or of all of them.\<close>

definition slice_last :: "nat \<Rightarrow> 'a list \<Rightarrow> 'a list" where
  "slice_last n xs = drop (length xs - n) xs"

text \<open>
  The answers that are no reply: status 400 with the message of the validation, and
  status 500 with a fixed message from the \<^verbatim>\<open>catch\<close> of the route, which is where an
  error thrown by \<^verbatim>\<open>generateResponse\<close> arrives, before anything is stored.
\<close>

datatype failure = Status400 string | Status500 string

definition post_chat ::
  "(number \<Rightarrow> string) \<Rightarrow> env \<Rightarrow> string + chatInput \<Rightarrow> server \<Rightarrow> server \<times> (failure + chatReply)"
where
  "post_chat ts e validated s =
     (case validated of
        Inl error \<Rightarrow> (s, Inl (Status400 error))
      | Inr v \<Rightarrow>
          let message = ch_message v;
              sessionId = (case ch_sessionId v of None \<Rightarrow> ''default'' | Some i \<Rightarrow> i);
              userId = (case ch_userId v of None \<Rightarrow> ''default'' | Some u \<Rightarrow> u)
          in case generateResponse ts (Math_random e) message (userData s userId) of
               Inl thrown \<Rightarrow> (s, Inl (Status500 ''Internal server error''))
             | Inr response \<Rightarrow>
                 let conversation =
                       (case conversations s sessionId of None \<Rightarrow> [] | Some c \<Rightarrow> c)
                       @ [\<lparr>c_type = user, c_message = Some message, c_timestamp = new_Date e\<rparr>,
                          \<lparr>c_type = bot, c_message = response, c_timestamp = new_Date2 e\<rparr>]
                 in (s\<lparr>conversations := (conversations s)(sessionId \<mapsto> conversation)\<rparr>,
                     Inr \<lparr>r_response = response, r_sessionId = sessionId,
                          r_conversation = slice_last 10 conversation\<rparr>))"

subsection \<open>GET /api/chat/history\<close>

definition get_chat_history :: "server \<Rightarrow> string \<Rightarrow> chatTurn list" where
  "get_chat_history s sessionId = (case conversations s sessionId of None \<Rightarrow> [] | Some c \<Rightarrow> c)"

subsection \<open>GET /api/health/insights\<close>

datatype direction = increase | decrease | stable

record trend =
  change :: number
  percentChange :: string
  direction :: direction
  recordCount :: nat

record insights =
  totalRecords :: nat
  metricsTracked :: "metric_type list"
  trends :: "(metric_type \<times> trend) list"
  recommendations :: "string list"

text \<open>\<^verbatim>\<open>[...new Set(xs)]\<close>: the distinct elements, in the order they first occur.\<close>

definition Set_add :: "'a list \<Rightarrow> 'a \<Rightarrow> 'a list" where
  "Set_add ys x = (if x \<in> set ys then ys else ys @ [x])"

definition new_Set :: "'a list \<Rightarrow> 'a list" where
  "new_Set xs = foldl Set_add [] xs"

text \<open>
  The first loop of \<^verbatim>\<open>generateHealthInsights\<close>: a new key gets a new array, and the
  record is pushed onto the array of its key. Here \<^verbatim>\<open>typeGroups\<close> holds references.
\<close>

definition group_push ::
  "heap \<times> (metric_type \<times> ref) list \<Rightarrow> healthMetric \<Rightarrow> heap \<times> (metric_type \<times> ref) list"
where
  "group_push hg record =
     (let (h, typeGroups) = hg
      in case map_of typeGroups (m_type record) of
           None \<Rightarrow> (push (h @ [[]]) (length h) record, typeGroups @ [(m_type record, length h)])
         | Some a \<Rightarrow> (push h a record, typeGroups))"

text \<open>
  The entry of one type, from its sorted records, if it gets one. The two calls of
  \<^verbatim>\<open>parseFloat\<close> are made in this order, and either may throw.
\<close>

definition trend_of :: "(number \<Rightarrow> string) \<Rightarrow> healthMetric list \<Rightarrow> error + trend option" where
  "trend_of ts records =
     (if length records \<ge> 2 then
        (case parseFloat_call (m_value (records ! 0)) of
           Inl e \<Rightarrow> Inl e
         | Inr first \<Rightarrow>
             (case parseFloat_call (m_value (records ! (length records - 1))) of
                Inl e \<Rightarrow> Inl e
              | Inr lastv \<Rightarrow>
                  if \<not> isNaN first \<and> \<not> isNaN lastv then
                    (let change = js_sub lastv first;
                         percentChange = toFixed1 ts (js_mul (js_div change first) (Fin 100))
                     in Inr (Some \<lparr>change = change, percentChange = percentChange,
                                    direction =
                                      (if js_gt0 change then increase
                                       else if js_lt0 change then decrease else stable),
                                    recordCount = length records\<rparr>))
                  else Inr None))
      else Inr None)"

text \<open>
  The body of the second loop: the array of the type is sorted where it is. The loop
  carries the heap and either the trends so far or the error that ended it; once an error
  is thrown no later type is visited.
\<close>

definition trend_step ::
  "(number \<Rightarrow> string) \<Rightarrow> heap \<times> (error + (metric_type \<times> trend) list) \<Rightarrow> metric_type \<times> ref
     \<Rightarrow> heap \<times> (error + (metric_type \<times> trend) list)"
where
  "trend_step ts ht ta =
     (let (h, r) = ht; (t, a) = ta
      in case r of
           Inl e \<Rightarrow> (h, Inl e)
         | Inr found \<Rightarrow>
             let h1 = sort_by_timestamp h a;
                 records = h1 ! a
             in case trend_of ts records of
                  Inl e \<Rightarrow> (h1, Inl e)
                | Inr None \<Rightarrow> (h1, Inr found)
                | Inr (Some tr) \<Rightarrow> (h1, Inr (AList.update t tr found)))"

definition more_metrics :: string where
  "more_metrics =
     ''Consider tracking more health metrics like blood pressure, heart rate, or sleep hours for a complete picture.''"

definition more_often :: string where
  "more_often = ''Try to log health data more frequently for better trend analysis.''"

definition great_job :: string where
  "great_job =
     ''Great job tracking your health! Consistency is key to achieving your wellness goals.''"

text \<open>
  \<^verbatim>\<open>generateHealthInsights(data)\<close>, where \<open>data\<close> is the reference \<open>a\<close>:
  \<^verbatim>\<open>forEach\<close> reads the array element by element while the loop body writes to
  the heap. The result is the heap it leaves and the report, or the error thrown.
\<close>

definition generateHealthInsights ::
  "(number \<Rightarrow> string) \<Rightarrow> heap \<Rightarrow> ref \<Rightarrow> heap \<times> (error + insights)"
where
  "generateHealthInsights ts h a =
     (let totalRecords = length (h ! a);
          metricsTracked = new_Set (map m_type (h ! a));
          (h1, typeGroups) =
            foldl (\<lambda>hg k. group_push hg (fst hg ! a ! k)) (h, []) [0..<length (h ! a)];
          (h2, r) = foldl (trend_step ts) (h1, Inr []) typeGroups
      in case r of
           Inl e \<Rightarrow> (h2, Inl e)
         | Inr found \<Rightarrow>
             let recommendations =
                   (if length metricsTracked < 3 then [more_metrics] else [])
                   @ (if length (h2 ! a) < 7 then [more_often] else [])
                   @ [great_job]
             in (h2, Inr \<lparr>totalRecords = totalRecords, metricsTracked = metricsTracked,
                          trends = found, recommendations = recommendations\<rparr>))"

definition no_insights :: string where
  "no_insights = ''No health data available for insights. Start tracking your health metrics!''"

text \<open>
  The answers of the route that are no report: the message for a user without records,
  and the error that \<^verbatim>\<open>generateHealthInsights\<close> threw, which the route does not
  catch; what the computation did to the heap before it threw stays done.
\<close>

datatype no_report = Message string | Uncaught error

definition get_insights ::
  "(number \<Rightarrow> string) \<Rightarrow> server \<Rightarrow> string option \<Rightarrow> server \<times> (no_report + insights)"
where
  "get_insights ts s p =
     (case healthData s (param_or_default p) of
        None \<Rightarrow> (s, Inl (Message no_insights))
      | Some a \<Rightarrow>
          if length (arrays s ! a) = 0 then (s, Inl (Message no_insights))
          else
            let (h, r) = generateHealthInsights ts (arrays s) a
            in case r of
                 Inl e \<Rightarrow> (s\<lparr>arrays := h\<rparr>, Inl (Uncaught e))
               | Inr report \<Rightarrow> (s\<lparr>arrays := h\<rparr>, Inr report))"

subsection \<open>Histories of requests\<close>

datatype request =
  PostHealthData env "string + metricInput"
  | PostChat env "string + chatInput"
  | GetHealthData "string option"
  | GetChatHistory string
  | GetInsights "string option"

fun step :: "(number \<Rightarrow> string) \<Rightarrow> server \<Rightarrow> request \<Rightarrow> server" where
  "step ts s (PostHealthData e v) = fst (post_health_data e v s)"
| "step ts s (PostChat e v) = fst (post_chat ts e v s)"
| "step ts s (GetHealthData p) = s"
| "step ts s (GetChatHistory i) = s"
| "step ts s (GetInsights p) = fst (get_insights ts s p)"

definition run :: "(number \<Rightarrow> string) \<Rightarrow> request list \<Rightarrow> server" where
  "run ts rs = foldl (step ts) init rs"

fun is_write :: "request \<Rightarrow> bool" where
  "is_write (PostHealthData e v) = True"
| "is_write _ = False"

text \<open>
  A sample of the printing function of the runtime, for the concrete instances below: it
  prints a natural number by its digits, as the runtime does below \<open>10 ^ 21\<close>, and is
  used at no other number.
\<close>

definition sample_toString :: "number \<Rightarrow> string" where
  "sample_toString x = (case x of Fin q \<Rightarrow> digits (nat \<lfloor>q\<rfloor>) | _ \<Rightarrow> [])"

text \<open>Every reference that \<^verbatim>\<open>healthData\<close> holds has been allocated.\<close>

definition heap_ok :: "server \<Rightarrow> bool" where
  "heap_ok s = (\<forall>u a. healthData s u = Some a \<longrightarrow> a < length (arrays s))"

text \<open>
  A sequence of exchanges: a turn of the user and then the turn of the bot, again and
  again, with no turn left over.
\<close>

fun pairs :: "chatTurn list \<Rightarrow> bool" where
  "pairs [] = True"
| "pairs [x] = False"
| "pairs (x # y # rest) = (c_type x = user \<and> c_type y = bot \<and> pairs rest)"

text \<open>Every stored conversation is a sequence of exchanges.\<close>

definition paired :: "server \<Rightarrow> bool" where
  "paired s = (\<forall>i c. conversations s i = Some c \<longrightarrow> pairs c)"

text \<open>Sample requests and records, for the concrete instances below.\<close>

definition env_at :: "int \<Rightarrow> string \<Rightarrow> env" where
  "env_at t i = \<lparr>Date_now = t, new_Date = t, new_Date2 = t, uuidv4 = i, Math_random = Fin 0\<rparr>"

definition input_of :: "metric_type \<Rightarrow> jsvalue \<Rightarrow> string \<Rightarrow> metricInput" where
  "input_of t v u =
     \<lparr>i_type = t, i_value = v, i_unit = u, i_timestamp = None, i_notes = None, i_userId = None\<rparr>"

definition stored :: "string \<Rightarrow> metric_type \<Rightarrow> jsvalue \<Rightarrow> string \<Rightarrow> int \<Rightarrow> healthMetric" where
  "stored i t v u time =
     \<lparr>m_id = i, m_type = t, m_value = v, m_unit = u, m_timestamp = time, m_notes = None,
      m_userId = None\<rparr>"

text \<open>
  What the first loop of \<^verbatim>\<open>generateHealthInsights\<close> keeps true, from the heap
  \<open>h0\<close> it started on and the records \<open>xs\<close> it has read: the arrays of \<open>h0\<close> are
  as they were; the keys are the types read, in the order they came; every key has an
  array of its own, allocated after \<open>h0\<close>, that holds the records of its type.
\<close>

definition grouped :: "heap \<Rightarrow> heap \<times> (metric_type \<times> ref) list \<Rightarrow> healthMetric list \<Rightarrow> bool" where
  "grouped h0 hg xs =
     (length h0 \<le> length (fst hg)
      \<and> (\<forall>i<length h0. fst hg ! i = h0 ! i)
      \<and> map fst (snd hg) = new_Set (map m_type xs)
      \<and> distinct (map snd (snd hg))
      \<and> (\<forall>t a. (t, a) \<in> set (snd hg) \<longrightarrow>
            length h0 \<le> a \<and> a < length (fst hg) \<and> fst hg ! a = filter (\<lambda>d. m_type d = t) xs))"

text \<open>The entry that the second loop adds for a type, or none.\<close>

definition entry_of :: "(number \<Rightarrow> string) \<Rightarrow> metric_type \<Rightarrow> healthMetric list \<Rightarrow> (metric_type \<times> trend) list" where
  "entry_of ts t records = (case trend_of ts records of Inr (Some tr) \<Rightarrow> [(t, tr)] | _ \<Rightarrow> [])"

section \<open>Rounding to a double\<close>

lemma pow2_powi: "pow2 k = 2 powi k"
  by (simp add: pow2_def power_int_def inverse_eq_divide power_one_over)

lemma pow2_pos: "0 < pow2 k"
  by (simp add: pow2_powi)

lemma pow2_add: "pow2 (i + j) = pow2 i * pow2 j"
  by (simp add: pow2_powi power_int_add)

lemma pow2_mono: "i \<le> j \<Longrightarrow> pow2 i \<le> pow2 j"
  by (simp add: pow2_powi power_int_increasing)

lemma bitlen_bounds: "0 < n \<Longrightarrow> 0 < bitlen n \<and> 2 ^ nat (bitlen n - 1) \<le> n \<and> n < 2 ^ nat (bitlen n)"
proof (induction n rule: bitlen.induct)
  case (1 n)
  show ?case
  proof (cases "n = 1")
    case True
    then show ?thesis by (simp add: bitlen.simps)
  next
    case False
    with "1.prems" have h: "0 < n div 2" by simp
    from "1.IH" "1.prems" h
    have ih: "0 < bitlen (n div 2)" "2 ^ nat (bitlen (n div 2) - 1) \<le> n div 2"
      "n div 2 < 2 ^ nat (bitlen (n div 2))" by auto
    have b: "bitlen n = 1 + bitlen (n div 2)" using "1.prems" by (simp add: bitlen.simps)
    have e1: "nat (bitlen n - 1) = Suc (nat (bitlen (n div 2) - 1))" using ih(1) b by simp
    have e2: "nat (bitlen n) = Suc (nat (bitlen (n div 2)))" using ih(1) b by simp
    have "2 * 2 ^ nat (bitlen (n div 2) - 1) \<le> n" using ih(2) by linarith
    moreover have "n < 2 * 2 ^ nat (bitlen (n div 2))" using ih(3) by linarith
    ultimately show ?thesis using ih(1) b unfolding e1 e2 by simp
  qed
qed

lemma floor_log2_bounds:
  assumes "0 < a"
  shows "pow2 (floor_log2 a) \<le> a \<and> a < pow2 (floor_log2 a + 1)"
proof -
  obtain n d where q: "quotient_of a = (n, d)" by (cases "quotient_of a")
  have d: "0 < d" using q quotient_of_denom_pos by blast
  have a: "a = of_int n / of_int d" using q quotient_of_div by blast
  have n: "0 < n" using assms d a by (simp add: zero_less_divide_iff)
  define bn where "bn = bitlen n"
  define bd where "bd = bitlen d"
  from bitlen_bounds[OF n] have bn: "0 < bn" "2 ^ nat (bn - 1) \<le> n" "n < 2 ^ nat bn"
    by (simp_all add: bn_def)
  from bitlen_bounds[OF d] have bd: "0 < bd" "2 ^ nat (bd - 1) \<le> d" "d < 2 ^ nat bd"
    by (simp_all add: bd_def)
  have rn: "pow2 (bn - 1) \<le> of_int n" "(of_int n :: rat) < pow2 bn"
    using bn by (simp_all add: pow2_def of_int_le_numeral_power_cancel_iff of_int_less_numeral_power_cancel_iff)
  have rd: "pow2 (bd - 1) \<le> of_int d" "(of_int d :: rat) < pow2 bd"
    using bd by (simp_all add: pow2_def)
  have dpos: "(0::rat) < of_int d" using d by simp
  have lo: "pow2 (bn - bd - 1) < a"
  proof -
    have "pow2 (bn - bd - 1) * of_int d < pow2 (bn - bd - 1) * pow2 bd"
      using rd(2) pow2_pos by (simp add: mult_strict_left_mono)
    also have "\<dots> = pow2 (bn - 1)" by (simp add: pow2_add[symmetric])
    also have "\<dots> \<le> of_int n" by (rule rn(1))
    finally show ?thesis using dpos by (simp add: a pos_less_divide_eq)
  qed
  have hi: "a < pow2 (bn - bd + 1)"
  proof -
    have "of_int n < pow2 bn" by (rule rn(2))
    also have "\<dots> = pow2 (bn - bd + 1) * pow2 (bd - 1)" by (simp add: pow2_add[symmetric])
    also have "\<dots> \<le> pow2 (bn - bd + 1) * of_int d"
      using rd(1) pow2_pos[of "bn - bd + 1"] by (simp add: mult_left_mono)
    finally show ?thesis using dpos by (simp add: a pos_divide_less_eq)
  qed
  have fl: "floor_log2 a = (if pow2 (bn - bd) \<le> a then bn - bd else bn - bd - 1)"
    by (simp add: floor_log2_def q bn_def bd_def Let_def)
  show ?thesis
  proof (cases "pow2 (bn - bd) \<le> a")
    case True
    then show ?thesis using hi fl by simp
  next
    case False
    then have e: "floor_log2 a = bn - bd - 1" using fl by simp
    have e': "floor_log2 a + 1 = bn - bd" using e by simp
    have "pow2 (floor_log2 a) \<le> a" using lo unfolding e by simp
    moreover have "a < pow2 (floor_log2 a + 1)" using False unfolding e' by simp
    ultimately show ?thesis by simp
  qed
qed


lemma round_half_even_le:
  assumes "x < of_int n + 1 / 2"
  shows "round_half_even x \<le> n"
proof -
  define f where "f = \<lfloor>x\<rfloor>"
  have f1: "of_int f \<le> x" and f2: "x < of_int f + 1" unfolding f_def by linarith+
  show ?thesis
  proof (cases "x - of_int f < 1 / 2")
    case True
    have "(of_int f :: rat) < of_int n + 1 / 2" using f1 assms by linarith
    then have "(of_int f :: rat) < of_int (n + 1)" by simp
    then have "f < n + 1" by (simp only: of_int_less_iff)
    then show ?thesis using True by (simp add: round_half_even_def Let_def f_def[symmetric])
  next
    case False
    then have "(of_int f :: rat) < of_int n" using assms by linarith
    then have "f < n" by (simp only: of_int_less_iff)
    then show ?thesis using False by (simp add: round_half_even_def Let_def f_def[symmetric])
  qed
qed

lemma round_half_even_nonneg:
  assumes "0 \<le> x"
  shows "0 \<le> round_half_even x"
proof -
  have "0 \<le> \<lfloor>x\<rfloor>" using assms by simp
  then show ?thesis by (simp add: round_half_even_def Let_def)
qed

lemma floor_log2_less:
  assumes "0 < a" "a < pow2 k"
  shows "floor_log2 a < k"
proof (rule ccontr)
  assume "\<not> floor_log2 a < k"
  then have "pow2 k \<le> pow2 (floor_log2 a)" by (simp add: pow2_mono)
  then show False using floor_log2_bounds[OF assms(1)] assms(2) by linarith
qed

lemma floor_log2_ge:
  assumes "0 < a" "pow2 k \<le> a"
  shows "k \<le> floor_log2 a"
proof (rule ccontr)
  assume "\<not> k \<le> floor_log2 a"
  then have "pow2 (floor_log2 a + 1) \<le> pow2 k" by (simp add: pow2_mono)
  then show False using floor_log2_bounds[OF assms(1)] assms(2) by linarith
qed

lemma pow2_numerals:
  "pow2 1 = 2" "pow2 2 = 4" "pow2 (- 1) = 1 / 2" "pow2 0 = 1"
  by (simp_all add: pow2_def)

text \<open>A double below one is at most the largest double below one.\<close>

lemma double_below_one:
  assumes "is_double u" "u < 1"
  shows "u \<le> 1 - pow2 (- 53)"
proof (cases "u < 1 / 2")
  case True
  have "pow2 (- 53) \<le> pow2 (- 1)" by (rule pow2_mono) simp
  then show ?thesis using True by (simp add: pow2_numerals)
next
  case False
  then have pos: "0 < u" by simp
  have lo: "- 1 \<le> floor_log2 u" using False by (intro floor_log2_ge pos) (simp add: pow2_numerals)
  have hi: "floor_log2 u < 0" using assms(2) by (intro floor_log2_less pos) (simp add: pow2_numerals)
  have fl: "floor_log2 u = - 1" using lo hi by simp
  define m where "m = round_half_even (u / pow2 (- 53))"
  have rd: "round_double u = (if m = 0 then Fin 0 else Fin (of_int m * pow2 (- 53)))"
    using pos by (simp add: round_double_def fl Let_def m_def)
  have "u = of_int m * pow2 (- 53)"
    using assms(1) pos unfolding is_double_def rd by (auto split: if_splits)
  then have um: "u * 2 ^ 53 = of_int m" by (simp add: pow2_def)
  have "(of_int m :: rat) < of_int (2 ^ 53)" using assms(2) unfolding um[symmetric] by simp
  then have "m < 2 ^ 53" by (simp only: of_int_less_iff)
  then have "m \<le> 2 ^ 53 - 1" by simp
  then have "(of_int m :: rat) \<le> of_int (2 ^ 53 - 1)" by (simp only: of_int_le_iff)
  then have "u * 2 ^ 53 \<le> 2 ^ 53 - 1" unfolding um by simp
  then show ?thesis by (simp add: pow2_def field_simps)
qed


text \<open>Three times a double of \<open>[0, 1)\<close> rounds to a double below three.\<close>

lemma round_triple:
  assumes "is_double u" "0 < u" "u < 1"
  shows "\<exists>v. round_double (u * 3) = Fin v \<and> 0 \<le> v \<and> v < 3"
proof -
  define q where "q = u * 3"
  have qpos: "0 < q" and q3: "q < 3" using assms by (simp_all add: q_def)
  define e where "e = max (floor_log2 q) (- 1022)"
  define m where "m = round_half_even (q / pow2 (e - 52))"
  have fl2: "floor_log2 q < 2" using q3 by (intro floor_log2_less qpos) (simp add: pow2_numerals)
  then have e2: "e < 2" by (simp add: e_def)
  have rd: "round_double q = (if m = 0 then Fin 0 else Fin (of_int m * pow2 (e - 52)))"
    using qpos e2 by (simp add: round_double_def Let_def e_def[symmetric] m_def[symmetric])
  have m0: "0 \<le> m" unfolding m_def
    by (rule round_half_even_nonneg) (use qpos pow2_pos[of "e - 52"] in simp)
  have "e + 1 = 53 + (e - 52)" by simp
  then have split53: "pow2 (e + 1) = pow2 53 * pow2 (e - 52)" by (simp only: pow2_add)
  have bound: "of_int m * pow2 (e - 52) < 3"
  proof (cases "q < 2")
    case True
    then have "floor_log2 q < 1" by (intro floor_log2_less qpos) (simp add: pow2_numerals)
    then have e1: "e \<le> 0" by (simp add: e_def)
    have "q < pow2 (floor_log2 q + 1)" using floor_log2_bounds[OF qpos] by simp
    also have "\<dots> \<le> pow2 (e + 1)" by (rule pow2_mono) (simp add: e_def)
    also have "\<dots> = pow2 53 * pow2 (e - 52)" by (simp only: split53)
    finally have "q / pow2 (e - 52) < pow2 53" using pow2_pos[of "e - 52"] by (simp add: pos_divide_less_eq)
    moreover have "pow2 53 < of_int (2 ^ 53) + 1 / 2" by (simp add: pow2_def)
    ultimately have "q / pow2 (e - 52) < of_int (2 ^ 53) + 1 / 2" by (rule less_trans)
    then have "m \<le> 2 ^ 53" unfolding m_def by (rule round_half_even_le)
    then have "(of_int m :: rat) \<le> of_int (2 ^ 53)" by (simp only: of_int_le_iff)
    then have "(of_int m :: rat) \<le> pow2 53" by (simp add: pow2_def)
    then have "of_int m * pow2 (e - 52) \<le> pow2 53 * pow2 (e - 52)"
      using pow2_pos[of "e - 52"] by (simp add: mult_right_mono)
    also have "\<dots> = pow2 (e + 1)" by (simp only: split53)
    also have "\<dots> \<le> pow2 1" by (rule pow2_mono) (use e1 in simp)
    finally show ?thesis by (simp add: pow2_numerals)
  next
    case False
    then have "1 \<le> floor_log2 q" by (intro floor_log2_ge qpos) (simp add: pow2_numerals)
    then have e1: "e = 1" using fl2 by (simp add: e_def)
    have p51: "pow2 (e - 52) = 1 / 2 ^ 51" by (simp add: e1 pow2_def)
    have "u \<le> 1 - pow2 (- 53)" using assms by (intro double_below_one) simp_all
    then have "u * 2 ^ 53 \<le> 2 ^ 53 - 1" by (simp add: pow2_def field_simps)
    then have "q * 2 ^ 51 < of_int (3 * 2 ^ 51 - 1) + 1 / 2" by (simp add: q_def)
    then have "q / pow2 (e - 52) < of_int (3 * 2 ^ 51 - 1) + 1 / 2" by (simp add: p51)
    then have "m \<le> 3 * 2 ^ 51 - 1" unfolding m_def by (rule round_half_even_le)
    then have "(of_int m :: rat) \<le> of_int (3 * 2 ^ 51 - 1)" by (simp only: of_int_le_iff)
    then have "(of_int m :: rat) < 3 * 2 ^ 51" by simp
    then show ?thesis by (simp add: p51 field_simps)
  qed
  have nonneg: "0 \<le> of_int m * pow2 (e - 52)" using m0 pow2_pos[of "e - 52"] by simp
  show ?thesis unfolding q_def[symmetric] rd using bound nonneg by auto
qed

lemma random_index:
  assumes "is_double u" "0 \<le> u" "u < 1"
  shows "\<exists>k<3. Math_floor (js_mul (Fin u) (Fin 3)) = Fin (of_nat k)"
proof (cases "u = 0")
  case True
  then have "Math_floor (js_mul (Fin u) (Fin 3)) = Fin (of_nat 0)"
    by (simp add: js_mul_def signed_zero_def)
  then show ?thesis by (intro exI[of _ 0]) simp
next
  case False
  then have pos: "0 < u" using assms(2) by simp
  from round_triple[OF assms(1) pos assms(3)]
  obtain v where v: "round_double (u * 3) = Fin v" "0 \<le> v" "v < 3" by blast
  have mul: "js_mul (Fin u) (Fin 3) = Fin v" using False v(1) by (simp add: js_mul_def)
  have f0: "0 \<le> \<lfloor>v\<rfloor>" using v(2) by simp
  have f3: "\<lfloor>v\<rfloor> < 3" using v(3) by (simp add: floor_less_iff)
  have "nat \<lfloor>v\<rfloor> < 3" using f0 f3 by linarith
  moreover have "Math_floor (js_mul (Fin u) (Fin 3)) = Fin (of_nat (nat \<lfloor>v\<rfloor>))"
    using f0 by (simp add: mul)
  ultimately show ?thesis by blast
qed

lemma greeting_pick:
  assumes "is_double u" "0 \<le> u" "u < 1"
  shows "\<exists>k<3. getRandomResponse (Fin u) greeting = Some (greeting ! k)"
proof -
  from random_index[OF assms] obtain k where k: "k < 3"
    "Math_floor (js_mul (Fin u) (Fin 3)) = Fin (of_nat k)" by blast
  have len: "length greeting = 3" by (simp add: greeting_def)
  have "getRandomResponse (Fin u) greeting = Some (greeting ! k)"
    using k by (simp add: getRandomResponse_def len array_get_def)
  then show ?thesis using k(1) by blast
qed

section \<open>The chatbot: greetings\<close>

lemma str_includes_sublist: "str_includes s t = sublist t s"
  by (induction s) (simp_all add: sublist_Cons_right)

lemma str_includes_iff: "str_includes s t \<longleftrightarrow> (\<exists>p q. s = p @ t @ q)"
  by (simp add: str_includes_sublist sublist_def)

lemma toLowerCase_append: "toLowerCase (p @ q) = toLowerCase p @ toLowerCase q"
  by (simp add: toLowerCase_def)

lemma greeting_branch:
  assumes "str_includes (toLowerCase message) ''hello'' \<or> str_includes (toLowerCase message) ''hi''
    \<or> str_includes (toLowerCase message) ''hey''"
  shows "generateResponse ts rnd message data = Inr (getRandomResponse rnd greeting)"
  using assms by (simp add: generateResponse_def Let_def)

text \<open>
  Claim C6. A message whose lower case contains \<^verbatim>\<open>hello\<close>, \<^verbatim>\<open>hi\<close> or
  \<^verbatim>\<open>hey\<close> is answered with one of the three greetings, whatever else it contains
  and whatever the user has recorded: the test for a greeting comes first. The random
  number is any double of \<open>[0, 1)\<close>.
\<close>

theorem greeting_first:
  assumes "str_includes (toLowerCase message) ''hello'' \<or> str_includes (toLowerCase message) ''hi''
    \<or> str_includes (toLowerCase message) ''hey''"
    and "is_double u" and "0 \<le> u" and "u < 1"
  shows "\<exists>k<3. generateResponse ts (Fin u) message data = Inr (Some (greeting ! k))"
  using greeting_pick[OF assms(2-4)] greeting_branch[OF assms(1)] by simp

theorem greeting_first_witness:
  "(str_includes (toLowerCase ''hello, what's my blood pressure'') ''hello''
      \<or> str_includes (toLowerCase ''hello, what's my blood pressure'') ''hi''
      \<or> str_includes (toLowerCase ''hello, what's my blood pressure'') ''hey'')
   \<and> is_double (1 / 2) \<and> (0::rat) \<le> 1 / 2 \<and> (1 / 2 :: rat) < 1
   \<and> filter (\<lambda>d. m_type d = BloodPressure) [] = []
   \<and> (\<exists>k<3. generateResponse sample_toString (Fin (1 / 2)) ''hello, what's my blood pressure'' []
         = Inr (Some (greeting ! k)))"
proof -
  have h1: "str_includes (toLowerCase ''hello, what's my blood pressure'') ''hello''
      \<or> str_includes (toLowerCase ''hello, what's my blood pressure'') ''hi''
      \<or> str_includes (toLowerCase ''hello, what's my blood pressure'') ''hey''"
    by code_simp
  have h2: "is_double (1 / 2)" by code_simp
  have h3: "(0::rat) \<le> 1 / 2" and h4: "(1 / 2 :: rat) < 1" by simp_all
  from greeting_first[OF h1 h2 h3 h4, of sample_toString "[]"] h1 h2 show ?thesis by simp
qed

text \<open>
  Claim C10. The test for a greeting is plain containment, so a message that has
  \<^verbatim>\<open>hi\<close>, in either case, anywhere inside it, such as in the middle of a word, is
  answered with one of the three greetings and never reaches the tests for a metric or
  for a summary.
\<close>

theorem hi_inside_a_word:
  assumes "toLowerCase w = ''hi''" and "is_double u" and "0 \<le> u" and "u < 1"
  shows "\<exists>k<3. generateResponse ts (Fin u) (p @ w @ q) data = Inr (Some (greeting ! k))"
proof -
  have "toLowerCase (p @ w @ q) = toLowerCase p @ ''hi'' @ toLowerCase q"
    using assms(1) by (simp add: toLowerCase_append)
  then have "str_includes (toLowerCase (p @ w @ q)) ''hi''"
    unfolding str_includes_iff by blast
  then have "generateResponse ts (Fin u) (p @ w @ q) data = Inr (getRandomResponse (Fin u) greeting)"
    by (intro greeting_branch) simp
  then show ?thesis using greeting_pick[OF assms(2-4)] by simp
qed

theorem hi_inside_a_word_witness:
  "toLowerCase ''hi'' = ''hi'' \<and> is_double (1 / 2) \<and> (0::rat) \<le> 1 / 2 \<and> (1 / 2 :: rat) < 1
   \<and> ''show my weight '' @ ''hi'' @ ''story'' = ''show my weight history''
   \<and> ''what is t'' @ ''hi'' @ ''s'' = ''what is this''
   \<and> (\<exists>k<3. generateResponse sample_toString (Fin (1 / 2)) ''show my weight history'' []
         = Inr (Some (greeting ! k)))
   \<and> (\<exists>k<3. generateResponse sample_toString (Fin (1 / 2)) ''what is this'' []
         = Inr (Some (greeting ! k)))"
proof -
  have h1: "toLowerCase ''hi'' = ''hi''" by code_simp
  have h2: "is_double (1 / 2)" by code_simp
  have h3: "(0::rat) \<le> 1 / 2" and h4: "(1 / 2 :: rat) < 1" by simp_all
  from hi_inside_a_word[OF h1 h2 h3 h4, of sample_toString "''show my weight ''" "''story''" "[]"]
    hi_inside_a_word[OF h1 h2 h3 h4, of sample_toString "''what is t''" "''s''" "[]"]
    h1 h2 show ?thesis by simp
qed

section \<open>The chatbot: metric queries\<close>

text \<open>
  Claim C1, as the code has it. The chatbot has a query for three of the ten types:
  weight, blood pressure and heart rate, tested in this order after the greeting. For each
  of the three, when the user has no record of the type, a message whose lower case
  contains the name of the type, no greeting keyword and no name that is tested earlier is
  answered with the prompt of that type.
\<close>

theorem no_data_prompt:
  assumes "\<not> str_includes (toLowerCase message) ''hello''"
    and "\<not> str_includes (toLowerCase message) ''hi''"
    and "\<not> str_includes (toLowerCase message) ''hey''"
  shows "(str_includes (toLowerCase message) ''weight''
            \<and> filter (\<lambda>d. m_type d = Weight) data = []
          \<longrightarrow> generateResponse ts rnd message data = Inr (Some no_weight_data))
       \<and> (\<not> str_includes (toLowerCase message) ''weight''
            \<and> str_includes (toLowerCase message) ''blood pressure''
            \<and> filter (\<lambda>d. m_type d = BloodPressure) data = []
          \<longrightarrow> generateResponse ts rnd message data = Inr (Some no_blood_pressure_data))
       \<and> (\<not> str_includes (toLowerCase message) ''weight''
            \<and> \<not> str_includes (toLowerCase message) ''blood pressure''
            \<and> str_includes (toLowerCase message) ''heart rate''
            \<and> filter (\<lambda>d. m_type d = HeartRate) data = []
          \<longrightarrow> generateResponse ts rnd message data = Inr (Some no_heart_rate_data))"
  using assms by (simp add: generateResponse_def Let_def)

theorem no_data_prompt_witness:
  "\<not> str_includes (toLowerCase ''Show my weight'') ''hello''
   \<and> \<not> str_includes (toLowerCase ''Show my weight'') ''hi''
   \<and> \<not> str_includes (toLowerCase ''Show my weight'') ''hey''
   \<and> str_includes (toLowerCase ''Show my weight'') ''weight''
   \<and> filter (\<lambda>d. m_type d = Weight)
         [stored ''id-1'' BloodPressure (VStr ''120/80'') ''mmHg'' 1700000000000] = []
   \<and> generateResponse sample_toString (Fin 0) ''Show my weight''
         [stored ''id-1'' BloodPressure (VStr ''120/80'') ''mmHg'' 1700000000000]
       = Inr (Some ''I don't have any weight data recorded yet. Would you like to log your weight?'')
   \<and> \<not> str_includes (toLowerCase ''What is my blood pressure?'') ''hello''
   \<and> \<not> str_includes (toLowerCase ''What is my blood pressure?'') ''hi''
   \<and> \<not> str_includes (toLowerCase ''What is my blood pressure?'') ''hey''
   \<and> \<not> str_includes (toLowerCase ''What is my blood pressure?'') ''weight''
   \<and> str_includes (toLowerCase ''What is my blood pressure?'') ''blood pressure''
   \<and> filter (\<lambda>d. m_type d = BloodPressure) [] = []
   \<and> generateResponse sample_toString (Fin 0) ''What is my blood pressure?'' []
       = Inr (Some ''No blood pressure data found. Would you like to record your blood pressure?'')
   \<and> \<not> str_includes (toLowerCase ''What is my heart rate?'') ''hello''
   \<and> \<not> str_includes (toLowerCase ''What is my heart rate?'') ''hi''
   \<and> \<not> str_includes (toLowerCase ''What is my heart rate?'') ''hey''
   \<and> \<not> str_includes (toLowerCase ''What is my heart rate?'') ''weight''
   \<and> \<not> str_includes (toLowerCase ''What is my heart rate?'') ''blood pressure''
   \<and> str_includes (toLowerCase ''What is my heart rate?'') ''heart rate''
   \<and> filter (\<lambda>d. m_type d = HeartRate)
         [stored ''id-1'' BloodPressure (VStr ''120/80'') ''mmHg'' 1700000000000] = []
   \<and> generateResponse sample_toString (Fin 0) ''What is my heart rate?''
         [stored ''id-1'' BloodPressure (VStr ''120/80'') ''mmHg'' 1700000000000]
       = Inr (Some ''No heart rate data recorded. Would you like to log your heart rate?'')"
proof -
  let ?d = "[stored ''id-1'' BloodPressure (VStr ''120/80'') ''mmHg'' 1700000000000]"
  have w1: "\<not> str_includes (toLowerCase ''Show my weight'') ''hello''"
    and w2: "\<not> str_includes (toLowerCase ''Show my weight'') ''hi''"
    and w3: "\<not> str_includes (toLowerCase ''Show my weight'') ''hey''"
    and w4: "str_includes (toLowerCase ''Show my weight'') ''weight''"
    by code_simp+
  have b1: "\<not> str_includes (toLowerCase ''What is my blood pressure?'') ''hello''"
    and b2: "\<not> str_includes (toLowerCase ''What is my blood pressure?'') ''hi''"
    and b3: "\<not> str_includes (toLowerCase ''What is my blood pressure?'') ''hey''"
    and b4: "\<not> str_includes (toLowerCase ''What is my blood pressure?'') ''weight''"
    and b5: "str_includes (toLowerCase ''What is my blood pressure?'') ''blood pressure''"
    by code_simp+
  have h1: "\<not> str_includes (toLowerCase ''What is my heart rate?'') ''hello''"
    and h2: "\<not> str_includes (toLowerCase ''What is my heart rate?'') ''hi''"
    and h3: "\<not> str_includes (toLowerCase ''What is my heart rate?'') ''hey''"
    and h4: "\<not> str_includes (toLowerCase ''What is my heart rate?'') ''weight''"
    and h5: "\<not> str_includes (toLowerCase ''What is my heart rate?'') ''blood pressure''"
    and h6: "str_includes (toLowerCase ''What is my heart rate?'') ''heart rate''"
    by code_simp+
  have f1: "filter (\<lambda>d. m_type d = Weight) ?d = []"
    and f3: "filter (\<lambda>d. m_type d = HeartRate) ?d = []"
    by (simp_all add: stored_def)
  have r1: "generateResponse sample_toString (Fin 0) ''Show my weight'' ?d = Inr (Some no_weight_data)"
    using no_data_prompt[OF w1 w2 w3, of ?d sample_toString "Fin 0"] w4 f1 by blast
  have r2: "generateResponse sample_toString (Fin 0) ''What is my blood pressure?'' []
      = Inr (Some no_blood_pressure_data)"
    using no_data_prompt[OF b1 b2 b3, of "[]" sample_toString "Fin 0"] b4 b5 by simp
  have r3: "generateResponse sample_toString (Fin 0) ''What is my heart rate?'' ?d
      = Inr (Some no_heart_rate_data)"
    using no_data_prompt[OF h1 h2 h3, of ?d sample_toString "Fin 0"] h4 h5 h6 f3 by blast
  show ?thesis
    using w1 w2 w3 w4 b1 b2 b3 b4 b5 h1 h2 h3 h4 h5 h6 f1 f3
      r1[unfolded no_weight_data_def] r2[unfolded no_blood_pressure_data_def]
      r3[unfolded no_heart_rate_data_def]
    by simp
qed

text \<open>
  The claim as stated, for every type of the enumeration, fails at a type that has no
  query: with nothing recorded, the message \<^verbatim>\<open>steps\<close> contains the name of the
  type and no greeting keyword, and gets the default reply, which is none of the three
  prompts.
\<close>

theorem no_steps_query:
  "str_includes (toLowerCase ''steps'') (replace (type_name Steps) ''_'' '' '')
   \<and> \<not> str_includes (toLowerCase ''steps'') ''hello''
   \<and> \<not> str_includes (toLowerCase ''steps'') ''hi''
   \<and> \<not> str_includes (toLowerCase ''steps'') ''hey''
   \<and> filter (\<lambda>d. m_type d = Steps) [] = []
   \<and> generateResponse sample_toString (Fin 0) ''steps'' [] = Inr (Some (default_response ''steps''))
   \<and> default_response ''steps'' \<noteq> no_weight_data
   \<and> default_response ''steps'' \<noteq> no_blood_pressure_data
   \<and> default_response ''steps'' \<noteq> no_heart_rate_data"
  by code_simp

text \<open>
  Why no earlier name may occur: a message that names both weight and blood pressure is a
  weight query.
\<close>

theorem second_keyword_loses:
  "str_includes (toLowerCase ''weight and blood pressure'') ''blood pressure''
   \<and> \<not> str_includes (toLowerCase ''weight and blood pressure'') ''hello''
   \<and> \<not> str_includes (toLowerCase ''weight and blood pressure'') ''hi''
   \<and> \<not> str_includes (toLowerCase ''weight and blood pressure'') ''hey''
   \<and> filter (\<lambda>d. m_type d = BloodPressure) [] = []
   \<and> generateResponse sample_toString (Fin 0) ''weight and blood pressure'' [] = Inr (Some no_weight_data)
   \<and> no_weight_data \<noteq> no_blood_pressure_data"
  by code_simp

lemma nth_last_length: "xs \<noteq> [] \<Longrightarrow> xs ! (length xs - Suc 0) = last xs"
  by (simp add: last_conv_nth)

lemma metric_reply_weight:
  assumes "\<not> str_includes (toLowerCase message) ''hello''"
    and "\<not> str_includes (toLowerCase message) ''hi''"
    and "\<not> str_includes (toLowerCase message) ''hey''"
    and "str_includes (toLowerCase message) ''weight''"
    and "filter (\<lambda>d. m_type d = Weight) data \<noteq> []"
    and "printable (m_value (last (filter (\<lambda>d. m_type d = Weight) data)))"
  shows "generateResponse ts rnd message data =
    Inr (Some (''Your latest weight is ''
          @ show_value ts (m_value (last (filter (\<lambda>d. m_type d = Weight) data))) @ '' ''
          @ m_unit (last (filter (\<lambda>d. m_type d = Weight) data)) @ ''. '' @ weight_advice))"
  using assms by (simp add: generateResponse_def Let_def nth_last_length ToString_def)

lemma metric_reply_heart_rate:
  assumes "\<not> str_includes (toLowerCase message) ''hello''"
    and "\<not> str_includes (toLowerCase message) ''hi''"
    and "\<not> str_includes (toLowerCase message) ''hey''"
    and "\<not> str_includes (toLowerCase message) ''weight''"
    and "\<not> str_includes (toLowerCase message) ''blood pressure''"
    and "str_includes (toLowerCase message) ''heart rate''"
    and "filter (\<lambda>d. m_type d = HeartRate) data \<noteq> []"
    and "printable (m_value (last (filter (\<lambda>d. m_type d = HeartRate) data)))"
  shows "generateResponse ts rnd message data =
    Inr (Some (''Your latest heart rate is ''
          @ show_value ts (m_value (last (filter (\<lambda>d. m_type d = HeartRate) data))) @ '' ''
          @ m_unit (last (filter (\<lambda>d. m_type d = HeartRate) data)) @ ''. '' @ heart_rate_advice))"
  using assms by (simp add: generateResponse_def Let_def nth_last_length ToString_def)

lemma metric_reply_blood_pressure:
  assumes "\<not> str_includes (toLowerCase message) ''hello''"
    and "\<not> str_includes (toLowerCase message) ''hi''"
    and "\<not> str_includes (toLowerCase message) ''hey''"
    and "\<not> str_includes (toLowerCase message) ''weight''"
    and "str_includes (toLowerCase message) ''blood pressure''"
    and "filter (\<lambda>d. m_type d = BloodPressure) data \<noteq> []"
    and "printable (m_value (last (filter (\<lambda>d. m_type d = BloodPressure) data)))"
  shows "generateResponse ts rnd message data =
    Inr (Some (''Your latest blood pressure is ''
          @ show_value ts (m_value (last (filter (\<lambda>d. m_type d = BloodPressure) data)))
          @ ''. '' @ blood_pressure_advice))"
  using assms by (simp add: generateResponse_def Let_def nth_last_length ToString_def)

text \<open>
  Claim C4. The replies for weight and for heart rate follow the format of the claim, value
  then unit, on the last record of the type in the order of insertion (the three lemmas
  above). The reply for blood pressure prints the value and leaves the unit out: for a
  record of 120/80 mmHg the reply has no \<^verbatim>\<open>mmHg\<close> in it.
\<close>

theorem blood_pressure_reply_without_unit:
  "generateResponse sample_toString (Fin 0) ''What is my blood pressure?''
     [stored ''id-1'' BloodPressure (VStr ''120/80'') ''mmHg'' 1700000000000]
   = Inr (Some (''Your latest blood pressure is 120/80. '' @ blood_pressure_advice))
   \<and> \<not> str_includes (''Your latest blood pressure is 120/80. '' @ blood_pressure_advice) ''mmHg''"
  by code_simp

section \<open>The chatbot: the summary\<close>

lemma new_Set_snoc: "new_Set (xs @ [x]) = Set_add (new_Set xs) x"
  by (simp add: new_Set_def)

lemma set_new_Set: "set (new_Set xs) = set xs"
  by (induction xs rule: rev_induct) (auto simp: new_Set_snoc Set_add_def new_Set_def)

lemma distinct_new_Set: "distinct (new_Set xs)"
  by (induction xs rule: rev_induct) (auto simp: new_Set_snoc Set_add_def new_Set_def)

text \<open>The position at which an element first occurs.\<close>

lemma first_index_append:
  "t \<in> set xs \<Longrightarrow> length (takeWhile (\<lambda>y. y \<noteq> t) (xs @ ys)) = length (takeWhile (\<lambda>y. y \<noteq> t) xs)"
  by (simp add: takeWhile_append1)

lemma first_index_less: "t \<in> set xs \<Longrightarrow> length (takeWhile (\<lambda>y. y \<noteq> t) xs) < length xs"
  by (induction xs) auto

lemma first_index_new: "x \<notin> set xs \<Longrightarrow> length (takeWhile (\<lambda>y. y \<noteq> x) (xs @ [x])) = length xs"
  by (induction xs) auto

lemma new_Set_first_occurrence:
  "sorted_wrt (\<lambda>s t. length (takeWhile (\<lambda>y. y \<noteq> s) xs) < length (takeWhile (\<lambda>y. y \<noteq> t) xs))
     (new_Set xs)"
proof (induction xs rule: rev_induct)
  case Nil
  then show ?case by (simp add: new_Set_def)
next
  case (snoc x xs)
  have old: "sorted_wrt (\<lambda>s t. length (takeWhile (\<lambda>y. y \<noteq> s) (xs @ [x]))
      < length (takeWhile (\<lambda>y. y \<noteq> t) (xs @ [x]))) (new_Set xs)"
    using snoc.IH
    by (rule sorted_wrt_mono_rel[rotated]) (simp add: set_new_Set first_index_append)
  show ?case
  proof (cases "x \<in> set xs")
    case True
    then show ?thesis using old by (simp add: new_Set_snoc Set_add_def set_new_Set)
  next
    case False
    then show ?thesis using old
      by (simp add: new_Set_snoc Set_add_def set_new_Set sorted_wrt_append first_index_new
          first_index_append first_index_less)
  qed
qed

lemma update_map_keys:
  "distinct ks \<Longrightarrow> k \<in> set ks \<Longrightarrow>
   AList.update k v (map (\<lambda>t. (t, f t)) ks) = map (\<lambda>t. (t, if t = k then v else f t)) ks"
proof (induction ks)
  case Nil
  then show ?case by simp
next
  case (Cons a ks)
  show ?case
  proof (cases "a = k")
    case True
    then have "k \<notin> set ks" using Cons.prems by simp
    then have "map (\<lambda>t. (t, if t = k then v else f t)) ks = map (\<lambda>t. (t, f t)) ks" by auto
    then show ?thesis using True by simp
  next
    case False
    then show ?thesis using Cons by simp
  qed
qed

lemma map_of_keys: "map_of (map (\<lambda>t. (t, f t)) ks) k = (if k \<in> set ks then Some (f k) else None)"
  by (induction ks) auto

lemma typeGroups_of_snoc: "typeGroups_of (xs @ [x]) = typeGroups_push (typeGroups_of xs) x"
  by (simp add: typeGroups_of_def)

lemma typeGroups_of_closed:
  "typeGroups_of xs = map (\<lambda>t. (t, filter (\<lambda>d. m_type d = t) xs)) (new_Set (map m_type xs))"
proof (induction xs rule: rev_induct)
  case Nil
  then show ?case by (simp add: typeGroups_of_def new_Set_def)
next
  case (snoc x xs)
  define K where "K = new_Set (map m_type xs)"
  have K: "set K = m_type ` set xs" "distinct K" by (simp_all add: K_def set_new_Set distinct_new_Set)
  show ?case
  proof (cases "m_type x \<in> set K")
    case True
    have "map (\<lambda>t. (t, if t = m_type x then filter (\<lambda>d. m_type d = m_type x) xs @ [x]
              else filter (\<lambda>d. m_type d = t) xs)) K
        = map (\<lambda>t. (t, filter (\<lambda>d. m_type d = t) (xs @ [x]))) K" by auto
    then show ?thesis using True K(2)
      by (simp add: typeGroups_of_snoc snoc.IH typeGroups_push_def K_def[symmetric] map_of_keys
          update_map_keys new_Set_snoc Set_add_def)
  next
    case False
    then have "m_type x \<notin> m_type ` set xs" using K(1) by simp
    then have e: "filter (\<lambda>d. m_type d = m_type x) xs = []"
      by (auto simp: filter_empty_conv image_iff)
    have "map (\<lambda>t. (t, filter (\<lambda>d. m_type d = t) (xs @ [x]))) K
        = map (\<lambda>t. (t, filter (\<lambda>d. m_type d = t) xs)) K" using False by auto
    then show ?thesis using False e
      by (simp add: typeGroups_of_snoc snoc.IH typeGroups_push_def K_def[symmetric] map_of_keys
          new_Set_snoc Set_add_def)
  qed
qed

text \<open>The loop of \<^verbatim>\<open>generateHealthSummary\<close>: an error, once thrown, is what the loop gives.\<close>

lemma summary_loop_thrown:
  "foldl
     (\<lambda>summary (t, data).
        case summary of
          Inl e \<Rightarrow> Inl e
        | Inr text \<Rightarrow>
            let latest = data ! (length data - 1); count = length data
            in map_sum id (\<lambda>line. text @ line) (summary_line ts t latest count))
     (Inl e) g = Inl e"
  by (induction g) (simp_all add: case_prod_unfold)

lemma summary_loop:
  assumes "\<forall>t\<in>set K. F t \<noteq> []"
  shows "foldl
     (\<lambda>summary (t, data).
        case summary of
          Inl e \<Rightarrow> Inl e
        | Inr text \<Rightarrow>
            let latest = data ! (length data - 1); count = length data
            in map_sum id (\<lambda>line. text @ line) (summary_line ts t latest count))
     (Inr a) (map (\<lambda>t. (t, F t)) K)
   = (if list_all (\<lambda>t. printable (m_value (last (F t)))) K
      then Inr (a @ concat (map (\<lambda>t. summary_text t (show_value ts (m_value (last (F t))))
                                        (m_unit (last (F t))) (length (F t))) K))
      else Inl TypeError)"
  using assms
proof (induction K arbitrary: a)
  case Nil
  then show ?case by simp
next
  case (Cons t K)
  then have ne: "F t \<noteq> []" and rest: "\<forall>t\<in>set K. F t \<noteq> []" by simp_all
  show ?case
  proof (cases "printable (m_value (last (F t)))")
    case True
    then show ?thesis using ne Cons.IH[OF rest]
      by (simp add: Let_def summary_line_def ToString_def nth_last_length)
  next
    case False
    then show ?thesis using ne
      by (simp add: Let_def summary_line_def ToString_def nth_last_length summary_loop_thrown)
  qed
qed

lemma summary_lines:
  "generateHealthSummary ts data =
     (if list_all (\<lambda>t. printable (m_value (last (filter (\<lambda>d. m_type d = t) data))))
           (new_Set (map m_type data))
      then Inr (summary_head
        @ concat (map (\<lambda>t. summary_text t
                              (show_value ts (m_value (last (filter (\<lambda>d. m_type d = t) data))))
                              (m_unit (last (filter (\<lambda>d. m_type d = t) data)))
                              (length (filter (\<lambda>d. m_type d = t) data)))
                   (new_Set (map m_type data)))
        @ summary_tail)
      else Inl TypeError)"
proof -
  define K where "K = new_Set (map m_type data)"
  have ne: "\<forall>t\<in>set K. filter (\<lambda>d. m_type d = t) data \<noteq> []"
    by (auto simp: K_def set_new_Set filter_empty_conv)
  show ?thesis
    using summary_loop[OF ne, of ts summary_head]
    by (simp add: generateHealthSummary_def Let_def typeGroups_of_closed K_def[symmetric])
qed

text \<open>
  Claim C8, as the code has it. For a list of records that is not empty, in which the last
  record of every type has a value that can be printed, the reply to a request for a
  summary is the heading, one line for each type that occurs, and the closing line. The
  types are distinct and are exactly those of the list, in the order in which each first
  occurs; the line of a type shows the value and the unit of the last record of that type
  in the list, and the number of its records.
\<close>

theorem summary_reply:
  assumes "\<not> str_includes (toLowerCase message) ''hello''"
    and "\<not> str_includes (toLowerCase message) ''hi''"
    and "\<not> str_includes (toLowerCase message) ''hey''"
    and "\<not> str_includes (toLowerCase message) ''weight''"
    and "\<not> str_includes (toLowerCase message) ''blood pressure''"
    and "\<not> str_includes (toLowerCase message) ''heart rate''"
    and "str_includes (toLowerCase message) ''summary'' \<or> str_includes (toLowerCase message) ''overview''"
    and "data \<noteq> []"
    and "list_all (\<lambda>t. printable (m_value (last (filter (\<lambda>d. m_type d = t) data))))
           (new_Set (map m_type data))"
  shows "generateResponse ts rnd message data =
     Inr (Some (summary_head
       @ concat (map (\<lambda>t. summary_text t
                             (show_value ts (m_value (last (filter (\<lambda>d. m_type d = t) data))))
                             (m_unit (last (filter (\<lambda>d. m_type d = t) data)))
                             (length (filter (\<lambda>d. m_type d = t) data)))
                  (new_Set (map m_type data)))
       @ summary_tail))
   \<and> distinct (new_Set (map m_type data))
   \<and> set (new_Set (map m_type data)) = m_type ` set data
   \<and> sorted_wrt (\<lambda>s t. length (takeWhile (\<lambda>y. y \<noteq> s) (map m_type data))
                        < length (takeWhile (\<lambda>y. y \<noteq> t) (map m_type data)))
        (new_Set (map m_type data))"
proof -
  have "generateResponse ts rnd message data = map_sum id Some (generateHealthSummary ts data)"
    using assms(1-8) by (simp add: generateResponse_def Let_def)
  then show ?thesis using assms(9)
    by (simp add: summary_lines distinct_new_Set set_new_Set new_Set_first_occurrence)
qed

theorem summary_reply_witness:
  "\<not> str_includes (toLowerCase ''Give me a health overview'') ''hello''
   \<and> \<not> str_includes (toLowerCase ''Give me a health overview'') ''hi''
   \<and> \<not> str_includes (toLowerCase ''Give me a health overview'') ''hey''
   \<and> \<not> str_includes (toLowerCase ''Give me a health overview'') ''weight''
   \<and> \<not> str_includes (toLowerCase ''Give me a health overview'') ''blood pressure''
   \<and> \<not> str_includes (toLowerCase ''Give me a health overview'') ''heart rate''
   \<and> (str_includes (toLowerCase ''Give me a health overview'') ''summary''
        \<or> str_includes (toLowerCase ''Give me a health overview'') ''overview'')
   \<and> printable (VStr ''130/85'') \<and> printable (VNum (Fin 70))
   \<and> generateResponse sample_toString (Fin 0) ''Give me a health overview''
        [stored ''id-1'' BloodPressure (VStr ''120/80'') ''mmHg'' 1700000000000,
         stored ''id-2'' Weight (VNum (Fin 70)) ''kg'' 1700000001000,
         stored ''id-3'' BloodPressure (VStr ''130/85'') ''mmHg'' 1700000002000]
      = Inr (Some (summary_head
          @ bullet @ '' **BLOOD PRESSURE**: 130/85 mmHg (2 recordings)\<newline>''
          @ bullet @ '' **WEIGHT**: 70 kg (1 recordings)\<newline>''
          @ summary_tail))"
proof -
  let ?m = "''Give me a health overview''"
  let ?d = "[stored ''id-1'' BloodPressure (VStr ''120/80'') ''mmHg'' 1700000000000,
         stored ''id-2'' Weight (VNum (Fin 70)) ''kg'' 1700000001000,
         stored ''id-3'' BloodPressure (VStr ''130/85'') ''mmHg'' 1700000002000]"
  have h1: "\<not> str_includes (toLowerCase ?m) ''hello''"
    and h2: "\<not> str_includes (toLowerCase ?m) ''hi''"
    and h3: "\<not> str_includes (toLowerCase ?m) ''hey''"
    and h4: "\<not> str_includes (toLowerCase ?m) ''weight''"
    and h5: "\<not> str_includes (toLowerCase ?m) ''blood pressure''"
    and h6: "\<not> str_includes (toLowerCase ?m) ''heart rate''"
    and h7: "str_includes (toLowerCase ?m) ''summary'' \<or> str_includes (toLowerCase ?m) ''overview''"
    by code_simp+
  have h8: "?d \<noteq> []" by simp
  have h9: "list_all (\<lambda>t. printable (m_value (last (filter (\<lambda>d. m_type d = t) ?d))))
           (new_Set (map m_type ?d))" by code_simp
  have c: "summary_head
       @ concat (map (\<lambda>t. summary_text t
                             (show_value sample_toString (m_value (last (filter (\<lambda>d. m_type d = t) ?d))))
                             (m_unit (last (filter (\<lambda>d. m_type d = t) ?d)))
                             (length (filter (\<lambda>d. m_type d = t) ?d)))
                  (new_Set (map m_type ?d)))
       @ summary_tail
     = summary_head
          @ bullet @ '' **BLOOD PRESSURE**: 130/85 mmHg (2 recordings)\<newline>''
          @ bullet @ '' **WEIGHT**: 70 kg (1 recordings)\<newline>''
          @ summary_tail" by code_simp
  from summary_reply[OF h1 h2 h3 h4 h5 h6 h7 h8 h9, of sample_toString "Fin 0"]
  have "generateResponse sample_toString (Fin 0) ?m ?d =
     Inr (Some (summary_head
       @ concat (map (\<lambda>t. summary_text t
                             (show_value sample_toString (m_value (last (filter (\<lambda>d. m_type d = t) ?d))))
                             (m_unit (last (filter (\<lambda>d. m_type d = t) ?d)))
                             (length (filter (\<lambda>d. m_type d = t) ?d)))
                  (new_Set (map m_type ?d)))
       @ summary_tail))" by blast
  then have "generateResponse sample_toString (Fin 0) ?m ?d =
     Inr (Some (summary_head
          @ bullet @ '' **BLOOD PRESSURE**: 130/85 mmHg (2 recordings)\<newline>''
          @ bullet @ '' **WEIGHT**: 70 kg (1 recordings)\<newline>''
          @ summary_tail))"
    unfolding c .
  then show ?thesis using h1 h2 h3 h4 h5 h6 h7 by simp
qed

text \<open>
  A record whose value is an object with a key \<^verbatim>\<open>toString\<close> passes the schema and is
  stored. The summary of that list, which is not empty, is no text: the template throws,
  and the route answers with status 500 and stores no turn.
\<close>

theorem summary_of_an_object_that_does_not_print:
  "snd (post_health_data (env_at 1700000000000 ''id-1'') (Inr (input_of Weight (VObj False) ''kg'')) init)
     = Inr (stored ''id-1'' Weight (VObj False) ''kg'' 1700000000000)
   \<and> userData (fst (post_health_data (env_at 1700000000000 ''id-1'')
                      (Inr (input_of Weight (VObj False) ''kg'')) init)) ''default''
     = [stored ''id-1'' Weight (VObj False) ''kg'' 1700000000000]
   \<and> generateResponse sample_toString (Fin 0) ''Give me a summary''
        [stored ''id-1'' Weight (VObj False) ''kg'' 1700000000000] = Inl TypeError
   \<and> snd (post_chat sample_toString (env_at 1700000001000 ''id-2'')
            (Inr \<lparr>ch_message = ''Give me a summary'', ch_sessionId = None, ch_userId = None\<rparr>)
            (fst (post_health_data (env_at 1700000000000 ''id-1'')
                    (Inr (input_of Weight (VObj False) ''kg'')) init)))
     = Inl (Status500 ''Internal server error'')
   \<and> get_chat_history
       (fst (post_chat sample_toString (env_at 1700000001000 ''id-2'')
            (Inr \<lparr>ch_message = ''Give me a summary'', ch_sessionId = None, ch_userId = None\<rparr>)
            (fst (post_health_data (env_at 1700000000000 ''id-1'')
                    (Inr (input_of Weight (VObj False) ''kg'')) init)))) ''default'' = []"
proof -
  let ?s = "fst (post_health_data (env_at 1700000000000 ''id-1'')
                      (Inr (input_of Weight (VObj False) ''kg'')) init)"
  let ?d = "[stored ''id-1'' Weight (VObj False) ''kg'' 1700000000000]"
  have a: "snd (post_health_data (env_at 1700000000000 ''id-1'') (Inr (input_of Weight (VObj False) ''kg'')) init)
     = Inr (stored ''id-1'' Weight (VObj False) ''kg'' 1700000000000)"
    by (simp add: post_health_data_def init_def env_at_def input_of_def stored_def
        healthMetric_of_def schema_timestamp_def Let_def push_def)
  have s: "?s = \<lparr>healthData = Map.empty(''default'' \<mapsto> 0), conversations = Map.empty, arrays = [?d]\<rparr>"
    by (simp add: post_health_data_def init_def env_at_def input_of_def stored_def
        healthMetric_of_def schema_timestamp_def Let_def push_def)
  have u: "userData ?s ''default'' = ?d"
    unfolding s by (simp add: userData_def)
  have g: "generateResponse sample_toString (Fin 0) ''Give me a summary'' ?d = Inl TypeError"
    by code_simp
  have p: "post_chat sample_toString (env_at 1700000001000 ''id-2'')
            (Inr \<lparr>ch_message = ''Give me a summary'', ch_sessionId = None, ch_userId = None\<rparr>) ?s
      = (?s, Inl (Status500 ''Internal server error''))"
    using g u by (simp add: post_chat_def Let_def env_at_def)
  have h: "get_chat_history ?s ''default'' = []"
    unfolding s by (simp add: get_chat_history_def)
  show ?thesis using a u g h unfolding p by simp
qed

section \<open>Insights: the groups on the heap\<close>

lemma grouped_Nil: "grouped h0 (h0, []) []"
  by (simp add: grouped_def new_Set_def)

lemma grouped_push:
  assumes "grouped h0 (h, g) xs"
  shows "grouped h0 (group_push (h, g) x) (xs @ [x])"
proof -
  from assms have len: "length h0 \<le> length h"
    and old: "\<And>i. i < length h0 \<Longrightarrow> h ! i = h0 ! i"
    and keys: "map fst g = new_Set (map m_type xs)"
    and dist: "distinct (map snd g)"
    and cont: "\<And>t a. (t, a) \<in> set g \<Longrightarrow>
        length h0 \<le> a \<and> a < length h \<and> h ! a = filter (\<lambda>d. m_type d = t) xs"
    by (simp_all add: grouped_def)
  have dkeys: "distinct (map fst g)" using keys by (simp add: distinct_new_Set)
  have skeys: "fst ` set g = m_type ` set xs"
    using arg_cong[OF keys, of set] by (simp add: set_new_Set)
  show ?thesis
  proof (cases "map_of g (m_type x)")
    case None
    then have nk: "m_type x \<notin> fst ` set g" by (simp add: map_of_eq_None_iff)
    then have new: "m_type x \<notin> m_type ` set xs" using skeys by simp
    then have empty: "filter (\<lambda>d. m_type d = m_type x) xs = []"
      by (auto simp: filter_empty_conv image_iff)
    have gp: "group_push (h, g) x = (h @ [[x]], g @ [(m_type x, length h)])"
      using None by (simp add: group_push_def push_def)
    have p1: "length h0 \<le> length (h @ [[x]])" using len by simp
    have p2: "\<forall>i<length h0. (h @ [[x]]) ! i = h0 ! i" using len old by (simp add: nth_append)
    have p3: "map fst (g @ [(m_type x, length h)]) = new_Set (map m_type (xs @ [x]))"
      using keys new by (simp add: new_Set_snoc Set_add_def set_new_Set)
    have fresh: "length h \<notin> snd ` set g" using cont by force
    have p4: "distinct (map snd (g @ [(m_type x, length h)]))" using dist fresh by simp
    have p5: "length h0 \<le> a \<and> a < length (h @ [[x]])
        \<and> (h @ [[x]]) ! a = filter (\<lambda>d. m_type d = t) (xs @ [x])"
      if "(t, a) \<in> set (g @ [(m_type x, length h)])" for t a
    proof (cases "(t, a) \<in> set g")
      case True
      then have "t \<noteq> m_type x" using nk by force
      then show ?thesis using cont[OF True] by (simp add: nth_append)
    next
      case False
      then have "t = m_type x" "a = length h" using that by simp_all
      then show ?thesis using len empty by simp
    qed
    show ?thesis unfolding gp grouped_def fst_conv snd_conv
      using p1 p2 p3 p4 p5 by blast
  next
    case (Some a)
    then have mem: "(m_type x, a) \<in> set g" by (rule map_of_SomeD)
    have a: "length h0 \<le> a" "a < length h" "h ! a = filter (\<lambda>d. m_type d = m_type x) xs"
      using cont[OF mem] by simp_all
    have inx: "m_type x \<in> m_type ` set xs" using mem skeys by force
    have gp: "group_push (h, g) x = (h[a := h ! a @ [x]], g)"
      using Some by (simp add: group_push_def push_def)
    have p1: "length h0 \<le> length (h[a := h ! a @ [x]])" using len by simp
    have p2: "\<forall>i<length h0. h[a := h ! a @ [x]] ! i = h0 ! i" using a(1) old by simp
    have p3: "map fst g = new_Set (map m_type (xs @ [x]))"
      using keys inx by (simp add: new_Set_snoc Set_add_def set_new_Set)
    have p5: "length h0 \<le> b \<and> b < length (h[a := h ! a @ [x]])
        \<and> h[a := h ! a @ [x]] ! b = filter (\<lambda>d. m_type d = t) (xs @ [x])"
      if tb: "(t, b) \<in> set g" for t b
    proof (cases "b = a")
      case True
      have "t = m_type x"
      proof -
        have inj: "inj_on snd (set g)" using dist by (simp add: distinct_map)
        have "(t, b) = (m_type x, a)"
          by (rule inj_onD[OF inj]) (use tb mem True in simp_all)
        then show ?thesis by simp
      qed
      then show ?thesis using True a by simp
    next
      case False
      have "t \<noteq> m_type x"
      proof
        assume eq: "t = m_type x"
        have inj: "inj_on fst (set g)" using dkeys by (simp add: distinct_map)
        have "(t, b) = (m_type x, a)"
          by (rule inj_onD[OF inj]) (use tb mem eq in simp_all)
        then show False using False by simp
      qed
      then show ?thesis using False cont[OF tb] by simp
    qed
    show ?thesis unfolding gp grouped_def fst_conv snd_conv
      using p1 p2 p3 dist p5 by blast
  qed
qed

lemma grouped_foldl: "grouped h0 (foldl group_push (h0, []) xs) xs"
proof (induction xs rule: rev_induct)
  case Nil
  then show ?case by (simp add: grouped_Nil)
next
  case (snoc x xs)
  obtain h g where hg: "foldl group_push (h0, []) xs = (h, g)" by (cases "foldl group_push (h0, []) xs")
  then show ?case using snoc grouped_push[of h0 h g xs x] by simp
qed

text \<open>Reading the array element by element while the groups are written is reading it
  once: the groups are new arrays.\<close>

lemma forEach_reads:
  assumes "a < length h0" "n \<le> length (h0 ! a)"
  shows "foldl (\<lambda>hg k. group_push hg (fst hg ! a ! k)) (h0, []) [0..<n]
         = foldl group_push (h0, []) (take n (h0 ! a))"
  using assms(2)
proof (induction n)
  case 0
  then show ?case by simp
next
  case (Suc n)
  then have n: "n < length (h0 ! a)" by simp
  have "fst (foldl group_push (h0, []) (take n (h0 ! a))) ! a = h0 ! a"
    using grouped_foldl[of h0 "take n (h0 ! a)"] assms(1) by (simp add: grouped_def)
  then show ?case using Suc n by (simp add: take_Suc_conv_app_nth)
qed

section \<open>Insights: the trends\<close>

lemma update_new: "k \<notin> fst ` set al \<Longrightarrow> AList.update k v al = al @ [(k, v)]"
  by (induction al) auto

lemma the_error: "(e :: error) = TypeError"
  by (cases e) simp

text \<open>The second loop: an error, once thrown, is what the loop gives, on the heap as it is.\<close>

lemma trend_step_thrown: "trend_step ts (h, Inl e) p = (h, Inl e)"
  by (cases p) (simp add: trend_step_def)

lemma trend_loop_thrown: "foldl (trend_step ts) (h, Inl e) g = (h, Inl e)"
  by (induction g) (simp_all add: trend_step_thrown)

lemma trend_step_fst:
  "fst (trend_step ts (h, r) (t, a)) = h \<or> fst (trend_step ts (h, r) (t, a)) = sort_by_timestamp h a"
  by (simp add: trend_step_def Let_def split: option.splits sum.splits)

text \<open>The loop writes to the arrays of the groups and to no other.\<close>

lemma trend_loop_length: "length (fst (foldl (trend_step ts) (h, r) g)) = length h"
proof (induction g arbitrary: h r)
  case Nil
  then show ?case by simp
next
  case (Cons p g)
  obtain t a where p: "p = (t, a)" by (cases p)
  obtain h' r' where st: "trend_step ts (h, r) (t, a) = (h', r')"
    by (cases "trend_step ts (h, r) (t, a)")
  have "h' = h \<or> h' = sort_by_timestamp h a" using trend_step_fst[of ts h r t a] st by simp
  then have "length h' = length h" by (auto simp: sort_by_timestamp_def)
  then show ?case using Cons[of h' r'] by (simp add: p st)
qed

lemma trend_loop_nth: "i \<notin> snd ` set g \<Longrightarrow> fst (foldl (trend_step ts) (h, r) g) ! i = h ! i"
proof (induction g arbitrary: h r)
  case Nil
  then show ?case by simp
next
  case (Cons p g)
  obtain t a where p: "p = (t, a)" by (cases p)
  obtain h' r' where st: "trend_step ts (h, r) (t, a) = (h', r')"
    by (cases "trend_step ts (h, r) (t, a)")
  have ia: "i \<noteq> a" and ig: "i \<notin> snd ` set g" using Cons.prems p by auto
  have "h' = h \<or> h' = sort_by_timestamp h a" using trend_step_fst[of ts h r t a] st by simp
  then have "h' ! i = h ! i" using ia by (auto simp: sort_by_timestamp_def)
  then show ?case using Cons.IH[OF ig, of h' r'] by (simp add: p st)
qed

text \<open>
  What the loop gives: the entries of the types in their order, if \<^verbatim>\<open>parseFloat\<close>
  throws at none of them.
\<close>

lemma trend_step_trends:
  assumes "distinct (map snd g)" "distinct (map fst g)"
    and "\<And>t a. (t, a) \<in> set g \<Longrightarrow> a < length h"
    and "fst ` set g \<inter> fst ` set tr0 = {}"
  shows "snd (foldl (trend_step ts) (h, Inr tr0) g)
         = (if list_all (\<lambda>(t, a). \<not> isl (trend_of ts (sort_key m_timestamp (h ! a)))) g
            then Inr (tr0 @ concat (map (\<lambda>(t, a). entry_of ts t (sort_key m_timestamp (h ! a))) g))
            else Inl TypeError)"
  using assms
proof (induction g arbitrary: h tr0)
  case Nil
  then show ?case by simp
next
  case (Cons p g)
  obtain t a where p: "p = (t, a)" by (cases p)
  define h1 where "h1 = sort_by_timestamp h a"
  define tr1 where "tr1 = tr0 @ entry_of ts t (sort_key m_timestamp (h ! a))"
  have a: "a < length h" using Cons.prems(3)[of t a] p by simp
  have h1a: "h1 ! a = sort_key m_timestamp (h ! a)" using a by (simp add: h1_def sort_by_timestamp_def)
  have tnew: "t \<notin> fst ` set tr0" using Cons.prems(4) p by auto
  show ?case
  proof (cases "trend_of ts (sort_key m_timestamp (h ! a))")
    case (Inl e)
    then have "trend_step ts (h, Inr tr0) (t, a) = (h1, Inl e)"
      by (simp add: trend_step_def Let_def h1_def[symmetric] h1a)
    then show ?thesis using Inl by (simp add: p trend_loop_thrown the_error[of e])
  next
    case (Inr x)
    have st: "trend_step ts (h, Inr tr0) (t, a) = (h1, Inr tr1)"
      using Inr
      by (cases x) (simp_all add: trend_step_def Let_def h1_def[symmetric] h1a tr1_def entry_of_def
          update_new[OF tnew])
    have d1: "distinct (map snd g)" and d2: "distinct (map fst g)"
      using Cons.prems(1,2) by simp_all
    have r: "\<And>t' a'. (t', a') \<in> set g \<Longrightarrow> a' < length h1"
      using Cons.prems(3) p by (auto simp: h1_def sort_by_timestamp_def)
    have tg: "t \<notin> fst ` set g" using Cons.prems(2) p by simp
    have "fst ` set tr1 \<subseteq> fst ` set tr0 \<union> {t}"
      by (auto simp: tr1_def entry_of_def split: option.splits sum.splits)
    moreover have "fst ` set g \<inter> fst ` set tr0 = {}" using Cons.prems(4) by auto
    ultimately have k: "fst ` set g \<inter> fst ` set tr1 = {}" using tg by blast
    have ag: "a \<notin> snd ` set g" using Cons.prems(1) p by simp
    have same: "h1 ! a' = h ! a'" if "(t', a') \<in> set g" for t' a'
    proof -
      have "a' \<noteq> a" using that ag by force
      then show ?thesis by (simp add: h1_def sort_by_timestamp_def)
    qed
    have same1: "map (\<lambda>(t, a). entry_of ts t (sort_key m_timestamp (h1 ! a))) g
        = map (\<lambda>(t, a). entry_of ts t (sort_key m_timestamp (h ! a))) g"
      by (rule map_cong[OF refl]) (auto simp: same)
    have same2: "list_all (\<lambda>(t, a). \<not> isl (trend_of ts (sort_key m_timestamp (h1 ! a)))) g
        = list_all (\<lambda>(t, a). \<not> isl (trend_of ts (sort_key m_timestamp (h ! a)))) g"
      by (rule list_all_cong[OF refl]) (auto simp: same)
    show ?thesis
      using Cons.IH[OF d1 d2 r k] Inr by (simp add: p st same1 same2 tr1_def)
  qed
qed

lemma insights_unfold:
  assumes "a < length h"
    and fg: "foldl group_push (h, []) (h ! a) = (h1, g)"
    and ft: "foldl (trend_step ts) (h1, Inr []) g = (h2, r)"
  shows "generateHealthInsights ts h a =
    (h2,
     case r of
       Inl e \<Rightarrow> Inl e
     | Inr found \<Rightarrow>
         Inr \<lparr>totalRecords = length (h ! a),
              metricsTracked = new_Set (map m_type (h ! a)),
              trends = found,
              recommendations =
                (if length (new_Set (map m_type (h ! a))) < 3 then [more_metrics] else [])
                @ (if length (h2 ! a) < 7 then [more_often] else [])
                @ [great_job]\<rparr>)"
proof -
  have rd: "foldl (\<lambda>hg k. group_push hg (fst hg ! a ! k)) (h, []) [0..<length (h ! a)] = (h1, g)"
    using forEach_reads[OF assms(1), of "length (h ! a)"] fg by simp
  show ?thesis
    unfolding generateHealthInsights_def Let_def rd by (simp add: ft split: sum.splits)
qed

lemma insights_closed:
  assumes "a < length h"
  shows "length h \<le> length (fst (generateHealthInsights ts h a))"
    and "\<forall>i<length h. fst (generateHealthInsights ts h a) ! i = h ! i"
    and "snd (generateHealthInsights ts h a) =
      (if list_all (\<lambda>t. \<not> isl (trend_of ts (sort_key m_timestamp (filter (\<lambda>d. m_type d = t) (h ! a)))))
            (new_Set (map m_type (h ! a)))
       then Inr \<lparr>totalRecords = length (h ! a),
                 metricsTracked = new_Set (map m_type (h ! a)),
                 trends =
                   concat (map (\<lambda>t. entry_of ts t
                                       (sort_key m_timestamp (filter (\<lambda>d. m_type d = t) (h ! a))))
                             (new_Set (map m_type (h ! a)))),
                 recommendations =
                   (if length (new_Set (map m_type (h ! a))) < 3 then [more_metrics] else [])
                   @ (if length (h ! a) < 7 then [more_often] else [])
                   @ [great_job]\<rparr>
       else Inl TypeError)"
proof -
  obtain h1 g where fg: "foldl group_push (h, []) (h ! a) = (h1, g)"
    by (cases "foldl group_push (h, []) (h ! a)")
  obtain h2 r where ft: "foldl (trend_step ts) (h1, Inr []) g = (h2, r)"
    by (cases "foldl (trend_step ts) (h1, Inr []) g")
  have gr: "grouped h (h1, g) (h ! a)" using grouped_foldl[of h "h ! a"] fg by simp
  then have len: "length h \<le> length h1"
    and old: "\<And>i. i < length h \<Longrightarrow> h1 ! i = h ! i"
    and keys: "map fst g = new_Set (map m_type (h ! a))"
    and dist: "distinct (map snd g)"
    and cont: "\<And>t r. (t, r) \<in> set g \<Longrightarrow>
        length h \<le> r \<and> r < length h1 \<and> h1 ! r = filter (\<lambda>d. m_type d = t) (h ! a)"
    by (simp_all add: grouped_def)
  have dkeys: "distinct (map fst g)" using keys by (simp add: distinct_new_Set)
  note u = insights_unfold[OF assms fg ft]
  have out: "i \<notin> snd ` set g" if "i < length h" for i
    using that cont by force
  have l2: "length h2 = length h1" using trend_loop_length[of ts h1 "Inr []" g] ft by simp
  have n2: "h2 ! i = h ! i" if "i < length h" for i
    using trend_loop_nth[OF out[OF that], of ts h1 "Inr []"] ft old[OF that] by simp
  show "length h \<le> length (fst (generateHealthInsights ts h a))"
    using len by (simp add: u l2)
  show "\<forall>i<length h. fst (generateHealthInsights ts h a) ! i = h ! i"
    using n2 by (simp add: u)
  have e1: "map (\<lambda>(t, r). entry_of ts t (sort_key m_timestamp (h1 ! r))) g
      = map (\<lambda>p. entry_of ts (fst p) (sort_key m_timestamp (filter (\<lambda>d. m_type d = fst p) (h ! a)))) g"
    by (rule map_cong[OF refl]) (use cont in auto)
  have e2: "\<dots> = map (\<lambda>t. entry_of ts t (sort_key m_timestamp (filter (\<lambda>d. m_type d = t) (h ! a))))
      (map fst g)" by (simp add: comp_def)
  have a1: "list_all (\<lambda>(t, r). \<not> isl (trend_of ts (sort_key m_timestamp (h1 ! r)))) g
      = list_all (\<lambda>p. \<not> isl (trend_of ts (sort_key m_timestamp (filter (\<lambda>d. m_type d = fst p) (h ! a))))) g"
    by (rule list_all_cong[OF refl]) (use cont in auto)
  have a2: "\<dots> = list_all (\<lambda>t. \<not> isl (trend_of ts (sort_key m_timestamp (filter (\<lambda>d. m_type d = t) (h ! a)))))
      (map fst g)" by (simp add: list_all_iff)
  have "r = snd (foldl (trend_step ts) (h1, Inr []) g)" by (simp add: ft)
  also have "\<dots> = (if list_all (\<lambda>(t, r). \<not> isl (trend_of ts (sort_key m_timestamp (h1 ! r)))) g
            then Inr ([] @ concat (map (\<lambda>(t, r). entry_of ts t (sort_key m_timestamp (h1 ! r))) g))
            else Inl TypeError)"
    by (rule trend_step_trends[OF dist dkeys]) (use cont in auto)
  finally have r: "r = (if list_all (\<lambda>t. \<not> isl (trend_of ts (sort_key m_timestamp (filter (\<lambda>d. m_type d = t) (h ! a)))))
            (new_Set (map m_type (h ! a)))
       then Inr (concat (map (\<lambda>t. entry_of ts t
                                       (sort_key m_timestamp (filter (\<lambda>d. m_type d = t) (h ! a))))
                             (new_Set (map m_type (h ! a)))))
       else Inl TypeError)"
    unfolding e1 e2 a1 a2 keys by simp
  have "h2 ! a = h ! a" using n2 assms by simp
  then show "snd (generateHealthInsights ts h a) =
      (if list_all (\<lambda>t. \<not> isl (trend_of ts (sort_key m_timestamp (filter (\<lambda>d. m_type d = t) (h ! a)))))
            (new_Set (map m_type (h ! a)))
       then Inr \<lparr>totalRecords = length (h ! a),
                 metricsTracked = new_Set (map m_type (h ! a)),
                 trends =
                   concat (map (\<lambda>t. entry_of ts t
                                       (sort_key m_timestamp (filter (\<lambda>d. m_type d = t) (h ! a))))
                             (new_Set (map m_type (h ! a)))),
                 recommendations =
                   (if length (new_Set (map m_type (h ! a))) < 3 then [more_metrics] else [])
                   @ (if length (h ! a) < 7 then [more_often] else [])
                   @ [great_job]\<rparr>
       else Inl TypeError)"
    by (simp add: u r)
qed

lemma map_of_entries_None:
  "k \<notin> set ks \<Longrightarrow> map_of (concat (map (\<lambda>t. entry_of ts t (f t)) ks)) k = None"
  by (induction ks) (auto simp: entry_of_def split: sum.splits option.splits)

lemma map_of_entries:
  "distinct ks \<Longrightarrow> list_all (\<lambda>t. \<not> isl (trend_of ts (f t))) ks \<Longrightarrow> k \<in> set ks \<Longrightarrow>
   trend_of ts (f k) = Inr (map_of (concat (map (\<lambda>t. entry_of ts t (f t)) ks)) k)"
proof (induction ks)
  case Nil
  then show ?case by simp
next
  case (Cons t ks)
  obtain x where x: "trend_of ts (f t) = Inr x"
    using Cons.prems(2) by (cases "trend_of ts (f t)") auto
  show ?case
  proof (cases "k = t")
    case True
    then have "k \<notin> set ks" using Cons.prems(1) by simp
    then show ?thesis using True x map_of_entries_None[of k ks ts f]
      by (cases x) (simp_all add: entry_of_def)
  next
    case False
    then have "trend_of ts (f k) = Inr (map_of (concat (map (\<lambda>t. entry_of ts t (f t)) ks)) k)"
      using Cons by simp
    then show ?thesis using False x by (cases x) (simp_all add: entry_of_def)
  qed
qed

lemma trend_of_Nil: "trend_of ts [] = Inr None"
  by (simp add: trend_of_def)

text \<open>The entry of a type in a report is what \<open>trend_of\<close> gives for its sorted records.\<close>

lemma trends_lookup:
  assumes "a < length h"
    and "snd (generateHealthInsights ts h a) = Inr report"
  shows "trend_of ts (sort_key m_timestamp (filter (\<lambda>d. m_type d = t) (h ! a)))
         = Inr (map_of (trends report) t)"
proof -
  let ?K = "new_Set (map m_type (h ! a))"
  let ?f = "\<lambda>t. sort_key m_timestamp (filter (\<lambda>d. m_type d = t) (h ! a))"
  have ok: "list_all (\<lambda>t. \<not> isl (trend_of ts (?f t))) ?K"
    using assms(2) unfolding insights_closed(3)[OF assms(1)] by (simp split: if_splits)
  then have tr: "trends report = concat (map (\<lambda>t. entry_of ts t (?f t)) ?K)"
    using assms(2) unfolding insights_closed(3)[OF assms(1)] by auto
  show ?thesis
  proof (cases "t \<in> m_type ` set (h ! a)")
    case True
    then have "t \<in> set ?K" by (simp add: set_new_Set)
    then show ?thesis
      using map_of_entries[OF distinct_new_Set ok] by (simp add: tr)
  next
    case False
    then have "filter (\<lambda>d. m_type d = t) (h ! a) = []" by (auto simp: filter_empty_conv image_iff)
    moreover have "t \<notin> set ?K" using False by (simp add: set_new_Set)
    ultimately show ?thesis
      by (simp add: tr map_of_entries_None trend_of_Nil)
  qed
qed

section \<open>The server\<close>

lemma heap_ok_init: "heap_ok init"
  by (simp add: heap_ok_def init_def)

lemma paired_init: "paired init"
  by (simp add: paired_def init_def)

lemma post_health_data_Inl: "post_health_data e (Inl m) s = (s, Inl m)"
  by (simp add: post_health_data_def)

lemma post_health_data_Inr:
  "post_health_data e (Inr v) s =
     (case healthData s (case i_userId v of None \<Rightarrow> ''default'' | Some u \<Rightarrow> u) of
        None \<Rightarrow>
          (s\<lparr>healthData := (healthData s)((case i_userId v of None \<Rightarrow> ''default'' | Some u \<Rightarrow> u)
                               \<mapsto> length (arrays s)),
             arrays := arrays s @ [[healthMetric_of e v]]\<rparr>, Inr (healthMetric_of e v))
      | Some a \<Rightarrow>
          (s\<lparr>arrays := (arrays s)[a := arrays s ! a @ [healthMetric_of e v]]\<rparr>,
           Inr (healthMetric_of e v)))"
  by (simp add: post_health_data_def Let_def push_def split: option.splits)

lemma heap_ok_post_health_data: "heap_ok s \<Longrightarrow> heap_ok (fst (post_health_data e v s))"
  by (cases v) (auto simp: post_health_data_Inl post_health_data_Inr heap_ok_def less_Suc_eq
      split: option.splits)

lemma post_chat_frame:
  "healthData (fst (post_chat ts e v s)) = healthData s"
  "arrays (fst (post_chat ts e v s)) = arrays s"
  by (cases v; simp add: post_chat_def Let_def split: sum.splits)+

lemma get_insights_fst:
  "fst (get_insights ts s p) =
     (case healthData s (param_or_default p) of
        None \<Rightarrow> s
      | Some a \<Rightarrow>
          if length (arrays s ! a) = 0 then s
          else s\<lparr>arrays := fst (generateHealthInsights ts (arrays s) a)\<rparr>)"
  by (simp add: get_insights_def Let_def case_prod_unfold split: option.splits sum.splits)

lemma get_insights_frame:
  assumes "heap_ok s"
  shows "healthData (fst (get_insights ts s p)) = healthData s"
    and "length (arrays s) \<le> length (arrays (fst (get_insights ts s p)))"
    and "\<forall>i<length (arrays s). arrays (fst (get_insights ts s p)) ! i = arrays s ! i"
proof -
  show "healthData (fst (get_insights ts s p)) = healthData s"
    by (simp add: get_insights_fst split: option.splits)
  show "length (arrays s) \<le> length (arrays (fst (get_insights ts s p)))"
  proof (cases "healthData s (param_or_default p)")
    case None
    then show ?thesis by (simp add: get_insights_fst)
  next
    case (Some a)
    then have "a < length (arrays s)" using assms by (simp add: heap_ok_def)
    then show ?thesis using Some insights_closed(1)[of a "arrays s" ts]
      by (simp add: get_insights_fst)
  qed
  show "\<forall>i<length (arrays s). arrays (fst (get_insights ts s p)) ! i = arrays s ! i"
  proof (cases "healthData s (param_or_default p)")
    case None
    then show ?thesis by (simp add: get_insights_fst)
  next
    case (Some a)
    then have "a < length (arrays s)" using assms by (simp add: heap_ok_def)
    then show ?thesis using Some insights_closed(2)[of a "arrays s" ts]
      by (simp add: get_insights_fst)
  qed
qed

lemma heap_ok_get_insights: "heap_ok s \<Longrightarrow> heap_ok (fst (get_insights ts s p))"
  using get_insights_frame(1,2)[of s ts p] by (fastforce simp: heap_ok_def)

lemma heap_ok_step: "heap_ok s \<Longrightarrow> heap_ok (step ts s r)"
  by (cases r)
    (simp_all add: heap_ok_post_health_data heap_ok_get_insights,
     simp add: heap_ok_def post_chat_frame)

lemma heap_ok_foldl: "heap_ok s \<Longrightarrow> heap_ok (foldl (step ts) s rs)"
  by (induction rs arbitrary: s) (simp_all add: heap_ok_step)

lemma heap_ok_run: "heap_ok (run ts rs)"
  by (simp add: run_def heap_ok_foldl heap_ok_init)

lemma userData_read_step:
  assumes "heap_ok s" "\<not> is_write r"
  shows "userData (step ts s r) u = userData s u"
proof (cases r)
  case (PostHealthData e v)
  then show ?thesis using assms(2) by simp
next
  case (PostChat e v)
  then show ?thesis by (simp add: userData_def post_chat_frame split: option.splits)
next
  case (GetHealthData p)
  then show ?thesis by simp
next
  case (GetChatHistory i)
  then show ?thesis by simp
next
  case (GetInsights p)
  show ?thesis
  proof (cases "healthData s u")
    case None
    then show ?thesis using get_insights_frame(1)[OF assms(1)] by (simp add: GetInsights userData_def)
  next
    case (Some a)
    then have "a < length (arrays s)" using assms(1) by (simp add: heap_ok_def)
    then show ?thesis using Some get_insights_frame(1,3)[OF assms(1), of ts p]
      by (simp add: GetInsights userData_def)
  qed
qed

lemma userData_reads:
  assumes "heap_ok s" "\<forall>r\<in>set rs. \<not> is_write r"
  shows "userData (foldl (step ts) s rs) u = userData s u"
  using assms
proof (induction rs arbitrary: s)
  case Nil
  then show ?case by simp
next
  case (Cons r rs)
  then show ?case by (simp add: heap_ok_step userData_read_step)
qed

text \<open>
  Claim C9. After any history of requests, any sequence of requests without a write to the
  measurements (lists, insights, chats, histories of chats) leaves what the list route
  returns as it was, for every user; in particular a single insights request does. The
  insights computation sorts arrays of its own, not the stored one.
\<close>

theorem reads_leave_the_store:
  assumes "list_all (\<lambda>r. \<not> is_write r) reads"
  shows "get_health_data (foldl (step ts) (run ts rs) reads) p = get_health_data (run ts rs) p
       \<and> get_health_data (fst (get_insights ts (run ts rs) q)) p = get_health_data (run ts rs) p"
proof -
  have "userData (step ts (run ts rs) (GetInsights q)) (param_or_default p)
      = userData (run ts rs) (param_or_default p)"
    by (rule userData_read_step[OF heap_ok_run]) simp
  then show ?thesis
    using userData_reads[where s = "run ts rs" and ts = ts and rs = reads, OF heap_ok_run] assms
    by (simp add: get_health_data_def list_all_iff)
qed

lemma pairs_even: "pairs c \<Longrightarrow> even (length c)"
  by (induction c rule: pairs.induct) simp_all

lemma pairs_append: "pairs c \<Longrightarrow> c_type x = user \<Longrightarrow> c_type y = bot \<Longrightarrow> pairs (c @ [x, y])"
  by (induction c rule: pairs.induct) simp_all

lemma pairs_drop: "pairs c \<Longrightarrow> pairs (drop (2 * k) c)"
proof (induction c arbitrary: k rule: pairs.induct)
  case 1
  then show ?case by simp
next
  case (2 x)
  then show ?case by simp
next
  case (3 x y rest)
  show ?case
  proof (cases k)
    case 0
    then show ?thesis using 3 by simp
  next
    case (Suc j)
    then show ?thesis using 3 by simp
  qed
qed

lemma pairs_slice_last: "pairs c \<Longrightarrow> pairs (slice_last 10 c)"
proof -
  assume p: "pairs c"
  then have "even (length c - 10)" using pairs_even[OF p] by simp
  then obtain k where "length c - 10 = 2 * k" by (blast elim: evenE)
  then show ?thesis using pairs_drop[OF p, of k] by (simp add: slice_last_def)
qed

lemma paired_step: "paired s \<Longrightarrow> paired (step ts s r)"
proof (cases r)
  case (PostHealthData e v)
  assume "paired s"
  then show ?thesis
    by (cases v) (auto simp: PostHealthData post_health_data_Inl post_health_data_Inr paired_def
        split: option.splits)
next
  case (PostChat e v)
  assume p: "paired s"
  have old: "pairs (case conversations s i of None \<Rightarrow> [] | Some c \<Rightarrow> c)" for i
    using p by (auto simp: paired_def split: option.splits)
  show ?thesis
    using p
    by (cases v)
      (auto simp: PostChat post_chat_def Let_def paired_def pairs_append old
        split: sum.splits if_splits)
next
  case (GetInsights p)
  assume "paired s"
  then show ?thesis
    by (auto simp: GetInsights get_insights_fst paired_def split: option.splits)
qed simp_all

lemma paired_run: "paired (run ts rs)"
proof -
  have "paired s \<Longrightarrow> paired (foldl (step ts) s rs)" for s
    by (induction rs arbitrary: s) (simp_all add: paired_step)
  then show ?thesis by (simp add: run_def paired_init)
qed

text \<open>
  Claim C7. After any history of requests, the conversation that a chat returns has at
  most ten turns and an even number of them, and it is a sequence of exchanges: a turn of
  the user, then the turn of the bot, again and again, with no turn of the user left
  without the turn of the bot that answers it. It is the end of the conversation that
  the server has stored for the session.
\<close>

theorem recent_history_in_pairs:
  assumes "snd (post_chat ts e validated (run ts rs)) = Inr reply"
  shows "length (r_conversation reply) \<le> 10
       \<and> even (length (r_conversation reply))
       \<and> pairs (r_conversation reply)
       \<and> r_conversation reply
           = slice_last 10
               (get_chat_history (fst (post_chat ts e validated (run ts rs))) (r_sessionId reply))"
proof -
  obtain v where v: "validated = Inr v" using assms by (cases validated) (simp_all add: post_chat_def)
  define sessionId where "sessionId = (case ch_sessionId v of None \<Rightarrow> ''default'' | Some i \<Rightarrow> i)"
  define c where "c = (case conversations (run ts rs) sessionId of None \<Rightarrow> [] | Some c \<Rightarrow> c)"
  have pc: "pairs c"
    using paired_run[of ts rs] by (auto simp: c_def paired_def split: option.splits)
  obtain response where g:
    "generateResponse ts (Math_random e) (ch_message v)
       (userData (run ts rs) (case ch_userId v of None \<Rightarrow> ''default'' | Some u \<Rightarrow> u))
     = Inr response"
    using assms
    by (cases "generateResponse ts (Math_random e) (ch_message v)
       (userData (run ts rs) (case ch_userId v of None \<Rightarrow> ''default'' | Some u \<Rightarrow> u))")
      (simp_all add: v post_chat_def Let_def)
  define x where "x = \<lparr>c_type = user, c_message = Some (ch_message v), c_timestamp = new_Date e\<rparr>"
  define y where "y = \<lparr>c_type = bot, c_message = response, c_timestamp = new_Date2 e\<rparr>"
  have pc2: "post_chat ts e validated (run ts rs)
      = ((run ts rs)\<lparr>conversations := (conversations (run ts rs))(sessionId \<mapsto> c @ [x, y])\<rparr>,
         Inr \<lparr>r_response = response, r_sessionId = sessionId,
              r_conversation = slice_last 10 (c @ [x, y])\<rparr>)"
    by (simp add: v post_chat_def Let_def g c_def sessionId_def x_def y_def)
  have rp: "reply = \<lparr>r_response = response, r_sessionId = sessionId,
              r_conversation = slice_last 10 (c @ [x, y])\<rparr>"
    using assms unfolding pc2 by simp
  have r: "r_conversation reply = slice_last 10 (c @ [x, y])" by (simp add: rp)
  have xy: "c_type x = user" "c_type y = bot" by (simp_all add: x_def y_def)
  have st: "get_chat_history (fst (post_chat ts e validated (run ts rs))) (r_sessionId reply)
             = c @ [x, y]"
    unfolding pc2 by (simp add: rp get_chat_history_def)
  have p2: "pairs (c @ [x, y])" using pc xy by (rule pairs_append)
  have "length (slice_last 10 (c @ [x, y])) = min 10 (length c + 2)"
    by (simp add: slice_last_def)
  then have "length (r_conversation reply) \<le> 10" unfolding r by simp
  moreover have "pairs (r_conversation reply)" unfolding r using p2 by (rule pairs_slice_last)
  moreover then have "even (length (r_conversation reply))" by (rule pairs_even)
  ultimately show ?thesis using r st by simp
qed

text \<open>
  Claim C3, as the code has it. After any history of requests, a write answers with the
  record it stored; the timestamp of that record is the time the server read when it built
  the record, whatever timestamp the request carried, and the record is appended to the
  sequence of its user.
\<close>

theorem write_time_is_stored:
  "snd (post_health_data e (Inr v) (run ts rs)) = Inr (healthMetric_of e v)
   \<and> m_timestamp (healthMetric_of e v) = new_Date e
   \<and> userData (fst (post_health_data e (Inr v) (run ts rs)))
       (case i_userId v of None \<Rightarrow> ''default'' | Some u \<Rightarrow> u)
     = userData (run ts rs) (case i_userId v of None \<Rightarrow> ''default'' | Some u \<Rightarrow> u)
       @ [healthMetric_of e v]"
proof -
  have "a < length (arrays (run ts rs))"
    if "healthData (run ts rs) (case i_userId v of None \<Rightarrow> ''default'' | Some u \<Rightarrow> u) = Some a" for a
    using that heap_ok_run[of ts rs] by (simp add: heap_ok_def)
  then show ?thesis
    by (auto simp: post_health_data_Inr userData_def healthMetric_of_def split: option.splits)
qed

lemma get_insights_report:
  assumes "snd (get_insights ts s p) = Inr report" "heap_ok s"
  shows "\<exists>a. healthData s (param_or_default p) = Some a \<and> a < length (arrays s)
           \<and> snd (generateHealthInsights ts (arrays s) a) = Inr report"
proof (cases "healthData s (param_or_default p)")
  case None
  then show ?thesis using assms(1) by (simp add: get_insights_def)
next
  case (Some a)
  then have "a < length (arrays s)" using assms(2) by (simp add: heap_ok_def)
  then show ?thesis using Some assms(1)
    by (auto simp: get_insights_def Let_def case_prod_unfold split: if_splits sum.splits)
qed

lemma trend_of_None_iff:
  assumes "2 \<le> length records"
    and "trend_of ts records = Inr x"
  shows "x = None
     \<longleftrightarrow> isNaN (parseFloat (m_value (hd records))) \<or> isNaN (parseFloat (m_value (last records)))"
proof -
  have ne: "records \<noteq> []" using assms(1) by auto
  have "records ! 0 = hd records" using ne by (simp add: hd_conv_nth)
  moreover have "records ! (length records - 1) = last records" using ne by (simp add: last_conv_nth)
  ultimately show ?thesis using assms
    by (auto simp: trend_of_def Let_def parseFloat_call_def split: if_splits)
qed

text \<open>
  Claim C2, as the code has it. When the insights route answers with a report, a type with
  at least two records has no entry among the trends exactly when \<^verbatim>\<open>parseFloat\<close>
  gives \<open>NaN\<close> on the value of its first or of its last record, in the order of the
  timestamps. That is so for a string that does not start with a number, and for an object
  that can be printed; at an object that cannot, \<^verbatim>\<open>parseFloat\<close> throws and the
  route answers with no report.
\<close>

theorem trend_needs_both_ends:
  assumes "snd (get_insights ts (run ts rs) p) = Inr report"
    and "records = sort_key m_timestamp (filter (\<lambda>d. m_type d = t) (get_health_data (run ts rs) p))"
    and "2 \<le> length records"
  shows "map_of (trends report) t = None
     \<longleftrightarrow> isNaN (parseFloat (m_value (hd records))) \<or> isNaN (parseFloat (m_value (last records)))"
proof -
  from get_insights_report[OF assms(1) heap_ok_run]
  obtain a where a: "healthData (run ts rs) (param_or_default p) = Some a"
    "a < length (arrays (run ts rs))"
    "snd (generateHealthInsights ts (arrays (run ts rs)) a) = Inr report" by blast
  have "get_health_data (run ts rs) p = arrays (run ts rs) ! a"
    using a(1) by (simp add: get_health_data_def userData_def)
  then have "trend_of ts records = Inr (map_of (trends report) t)"
    using trends_lookup[OF a(2,3), of t] by (simp add: assms(2))
  then show ?thesis by (rule trend_of_None_iff[OF assms(3)])
qed


lemma minus_two: "js_sub (Fin 68) (Fin 70) = Fin (- 2)"
  by code_simp

lemma minus_two_percent: "toFixed1 ts (js_mul (js_div (Fin (- 2)) (Fin 70)) (Fin 100)) = ''-2.9''"
  by code_simp

text \<open>
  Claim C5. From the empty server, a weight of 70 and then a weight of 68 are recorded for
  the default user, the second at a later time. The trends of the insights report are then
  the one entry for weight, with the change \<open>-2\<close>, the percentage \<^verbatim>\<open>-2.9\<close>, the
  direction of a decrease and two records.
\<close>

theorem weight_trend_scenario:
  assumes "i_type v1 = Weight" and "i_value v1 = VNum (Fin 70)" and "i_userId v1 = None"
    and "i_type v2 = Weight" and "i_value v2 = VNum (Fin 68)" and "i_userId v2 = None"
    and "new_Date e1 < new_Date e2"
  shows "\<exists>report.
      snd (get_insights ts
             (run ts [PostHealthData e1 (Inr v1), PostHealthData e2 (Inr v2)]) None) = Inr report
      \<and> trends report =
          [(Weight, \<lparr>change = Fin (- 2), percentChange = ''-2.9'', direction = decrease,
                     recordCount = 2\<rparr>)]"
proof -
  define r1 where "r1 = healthMetric_of e1 v1"
  define r2 where "r2 = healthMetric_of e2 v2"
  define s where "s = run ts [PostHealthData e1 (Inr v1), PostHealthData e2 (Inr v2)]"
  have f1: "m_type r1 = Weight" "m_value r1 = VNum (Fin 70)" "m_timestamp r1 = new_Date e1"
    using assms by (simp_all add: r1_def healthMetric_of_def)
  have f2: "m_type r2 = Weight" "m_value r2 = VNum (Fin 68)" "m_timestamp r2 = new_Date e2"
    using assms by (simp_all add: r2_def healthMetric_of_def)
  have hd: "healthData s ''default'' = Some 0" and ar: "arrays s = [[r1, r2]]"
    using assms(3,6)
    by (simp_all add: s_def run_def init_def post_health_data_Inr r1_def r2_def)
  have srt: "sort_key m_timestamp [r1, r2] = [r1, r2]" using assms(7) f1(3) f2(3) by simp
  define d where "d = [r1, r2]"
  have tr: "trend_of ts d
      = Inr (Some \<lparr>change = Fin (- 2), percentChange = ''-2.9'', direction = decrease,
                    recordCount = 2\<rparr>)"
    by (simp add: d_def trend_of_def Let_def parseFloat_call_def f1 f2 isNaN_def minus_two
        minus_two_percent)
  have ks: "new_Set (map m_type d) = [Weight]"
    by (simp add: d_def f1 f2 new_Set_def Set_add_def)
  have fl: "sort_key m_timestamp (filter (\<lambda>x. m_type x = Weight) d) = d"
    using srt by (simp add: d_def f1 f2)
  have len: "length d = 2" by (simp add: d_def)
  have "snd (generateHealthInsights ts [d] 0)
      = Inr \<lparr>totalRecords = 2, metricsTracked = [Weight],
             trends = [(Weight, \<lparr>change = Fin (- 2), percentChange = ''-2.9'',
                                 direction = decrease, recordCount = 2\<rparr>)],
             recommendations = [more_metrics, more_often, great_job]\<rparr>"
    using insights_closed(3)[of 0 "[d]" ts]
    by (simp add: ks fl tr len entry_of_def)
  then have "snd (get_insights ts s None)
      = Inr \<lparr>totalRecords = 2, metricsTracked = [Weight],
             trends = [(Weight, \<lparr>change = Fin (- 2), percentChange = ''-2.9'',
                                 direction = decrease, recordCount = 2\<rparr>)],
             recommendations = [more_metrics, more_often, great_job]\<rparr>"
    by (simp add: get_insights_def param_or_default_def hd ar d_def[symmetric] len
        case_prod_unfold Let_def split: sum.splits)
  then show ?thesis unfolding s_def by simp
qed


theorem weight_trend_scenario_witness:
  "i_type (input_of Weight (VNum (Fin 70)) ''kg'') = Weight
   \<and> i_value (input_of Weight (VNum (Fin 70)) ''kg'') = VNum (Fin 70)
   \<and> i_userId (input_of Weight (VNum (Fin 70)) ''kg'') = None
   \<and> i_type (input_of Weight (VNum (Fin 68)) ''kg'') = Weight
   \<and> i_value (input_of Weight (VNum (Fin 68)) ''kg'') = VNum (Fin 68)
   \<and> i_userId (input_of Weight (VNum (Fin 68)) ''kg'') = None
   \<and> new_Date (env_at 1000 ''id-1'') < new_Date (env_at 2000 ''id-2'')
   \<and> (\<exists>report.
        snd (get_insights sample_toString
               (run sample_toString
                  [PostHealthData (env_at 1000 ''id-1'') (Inr (input_of Weight (VNum (Fin 70)) ''kg'')),
                   PostHealthData (env_at 2000 ''id-2'') (Inr (input_of Weight (VNum (Fin 68)) ''kg''))])
               None) = Inr report
        \<and> trends report =
            [(Weight, \<lparr>change = Fin (- 2), percentChange = ''-2.9'', direction = decrease,
                       recordCount = 2\<rparr>)])"
proof -
  have h1: "i_type (input_of Weight (VNum (Fin 70)) ''kg'') = Weight"
    and h2: "i_value (input_of Weight (VNum (Fin 70)) ''kg'') = VNum (Fin 70)"
    and h3: "i_userId (input_of Weight (VNum (Fin 70)) ''kg'') = None"
    and h4: "i_type (input_of Weight (VNum (Fin 68)) ''kg'') = Weight"
    and h5: "i_value (input_of Weight (VNum (Fin 68)) ''kg'') = VNum (Fin 68)"
    and h6: "i_userId (input_of Weight (VNum (Fin 68)) ''kg'') = None"
    and h7: "new_Date (env_at 1000 ''id-1'') < new_Date (env_at 2000 ''id-2'')"
    by (simp_all add: input_of_def env_at_def)
  from weight_trend_scenario[OF h1 h2 h3 h4 h5 h6 h7, of sample_toString] h1 h2 h3 h4 h5 h6 h7
  show ?thesis by blast
qed

theorem trend_needs_both_ends_witness:
  "snd (get_insights sample_toString
     (run sample_toString
        [PostHealthData (env_at 1000 ''id-1'') (Inr (input_of BloodPressure (VStr ''high'') ''mmHg'')),
         PostHealthData (env_at 2000 ''id-2'') (Inr (input_of BloodPressure (VStr ''130/85'') ''mmHg''))])
     None)
   = Inr \<lparr>totalRecords = 2, metricsTracked = [BloodPressure], trends = [],
          recommendations = [more_metrics, more_often, great_job]\<rparr>
   \<and> [stored ''id-1'' BloodPressure (VStr ''high'') ''mmHg'' 1000,
       stored ''id-2'' BloodPressure (VStr ''130/85'') ''mmHg'' 2000]
     = sort_key m_timestamp (filter (\<lambda>d. m_type d = BloodPressure)
         (get_health_data
            (run sample_toString
               [PostHealthData (env_at 1000 ''id-1'') (Inr (input_of BloodPressure (VStr ''high'') ''mmHg'')),
                PostHealthData (env_at 2000 ''id-2'') (Inr (input_of BloodPressure (VStr ''130/85'') ''mmHg''))])
            None))
   \<and> (2::nat) \<le> length [stored ''id-1'' BloodPressure (VStr ''high'') ''mmHg'' 1000,
                          stored ''id-2'' BloodPressure (VStr ''130/85'') ''mmHg'' 2000]
   \<and> map_of (trends \<lparr>totalRecords = 2, metricsTracked = [BloodPressure], trends = [],
          recommendations = [more_metrics, more_often, great_job]\<rparr>) BloodPressure = None
   \<and> isNaN (parseFloat (VStr ''high''))"
proof -
  let ?rs = "[PostHealthData (env_at 1000 ''id-1'') (Inr (input_of BloodPressure (VStr ''high'') ''mmHg'')),
         PostHealthData (env_at 2000 ''id-2'') (Inr (input_of BloodPressure (VStr ''130/85'') ''mmHg''))]"
  let ?report = "\<lparr>totalRecords = 2, metricsTracked = [BloodPressure], trends = [],
          recommendations = [more_metrics, more_often, great_job]\<rparr>"
  let ?records = "[stored ''id-1'' BloodPressure (VStr ''high'') ''mmHg'' 1000,
       stored ''id-2'' BloodPressure (VStr ''130/85'') ''mmHg'' 2000]"
  have h1: "snd (get_insights sample_toString (run sample_toString ?rs) None) = Inr ?report"
    by code_simp
  have h2: "?records = sort_key m_timestamp (filter (\<lambda>d. m_type d = BloodPressure)
         (get_health_data (run sample_toString ?rs) None))"
    by code_simp
  have h3: "2 \<le> length ?records" by simp
  have nan: "isNaN (parseFloat (VStr ''high''))" by code_simp
  from trend_needs_both_ends[OF h1 h2 h3]
  have "map_of (trends ?report) BloodPressure = None"
    using nan by (simp add: stored_def)
  then show ?thesis using h1 h2 h3 nan by blast
qed

text \<open>
  The claim as stated fails at its own example: \<^verbatim>\<open>parseFloat\<close> reads the number
  that \<^verbatim>\<open>120/80\<close> starts with, so two such blood pressure records do get an entry.
\<close>

theorem blood_pressure_gets_a_trend:
  "parseFloat (VStr ''120/80'') = Fin 120
   \<and> snd (get_insights sample_toString
     (run sample_toString
        [PostHealthData (env_at 1000 ''id-1'') (Inr (input_of BloodPressure (VStr ''120/80'') ''mmHg'')),
         PostHealthData (env_at 2000 ''id-2'') (Inr (input_of BloodPressure (VStr ''130/85'') ''mmHg''))])
     None)
   = Inr \<lparr>totalRecords = 2, metricsTracked = [BloodPressure],
          trends = [(BloodPressure, \<lparr>change = Fin 10, percentChange = ''8.3'',
                                     direction = increase, recordCount = 2\<rparr>)],
          recommendations = [more_metrics, more_often, great_job]\<rparr>"
  by code_simp

text \<open>
  The claim as stated fails: a request that carries the timestamp 1000 and is written at
  5000 is stored with 5000.
\<close>

theorem client_timestamp_overwritten:
  "i_timestamp ((input_of Weight (VNum (Fin 70)) ''kg'')\<lparr>i_timestamp := Some 1000\<rparr>) = Some 1000
   \<and> map m_timestamp
        (get_health_data
           (fst (post_health_data (env_at 5000 ''id-1'')
                   (Inr ((input_of Weight (VNum (Fin 70)) ''kg'')\<lparr>i_timestamp := Some 1000\<rparr>)) init))
           None)
      = [5000]"
  by code_simp

theorem recent_history_in_pairs_witness:
  "snd (post_chat sample_toString (env_at 7000 ''id-7'')
          (Inr \<lparr>ch_message = ''summary'', ch_sessionId = None, ch_userId = None\<rparr>)
          (run sample_toString
             (replicate 5 (PostChat (env_at 1000 ''id-1'')
                (Inr \<lparr>ch_message = ''help'', ch_sessionId = None, ch_userId = None\<rparr>)))))
   = Inr (projr (snd (post_chat sample_toString (env_at 7000 ''id-7'')
          (Inr \<lparr>ch_message = ''summary'', ch_sessionId = None, ch_userId = None\<rparr>)
          (run sample_toString
             (replicate 5 (PostChat (env_at 1000 ''id-1'')
                (Inr \<lparr>ch_message = ''help'', ch_sessionId = None, ch_userId = None\<rparr>)))))))
   \<and> length (r_conversation (projr (snd (post_chat sample_toString (env_at 7000 ''id-7'')
          (Inr \<lparr>ch_message = ''summary'', ch_sessionId = None, ch_userId = None\<rparr>)
          (run sample_toString
             (replicate 5 (PostChat (env_at 1000 ''id-1'')
                (Inr \<lparr>ch_message = ''help'', ch_sessionId = None, ch_userId = None\<rparr>)))))))) = 10
   \<and> pairs (r_conversation (projr (snd (post_chat sample_toString (env_at 7000 ''id-7'')
          (Inr \<lparr>ch_message = ''summary'', ch_sessionId = None, ch_userId = None\<rparr>)
          (run sample_toString
             (replicate 5 (PostChat (env_at 1000 ''id-1'')
                (Inr \<lparr>ch_message = ''help'', ch_sessionId = None, ch_userId = None\<rparr>))))))))
   \<and> length (get_chat_history (fst (post_chat sample_toString (env_at 7000 ''id-7'')
          (Inr \<lparr>ch_message = ''summary'', ch_sessionId = None, ch_userId = None\<rparr>)
          (run sample_toString
             (replicate 5 (PostChat (env_at 1000 ''id-1'')
                (Inr \<lparr>ch_message = ''help'', ch_sessionId = None, ch_userId = None\<rparr>)))))) ''default'') = 12"
proof -
  let ?s = "run sample_toString
             (replicate 5 (PostChat (env_at 1000 ''id-1'')
                (Inr \<lparr>ch_message = ''help'', ch_sessionId = None, ch_userId = None\<rparr>)))"
  let ?p = "post_chat sample_toString (env_at 7000 ''id-7'')
          (Inr \<lparr>ch_message = ''summary'', ch_sessionId = None, ch_userId = None\<rparr>) ?s"
  have h: "snd ?p = Inr (projr (snd ?p))" by code_simp
  have l: "length (get_chat_history (fst ?p) ''default'') = 12" by code_simp
  have ten: "length (r_conversation (projr (snd ?p))) = 10" by code_simp
  from recent_history_in_pairs[OF h] ten h l show ?thesis by blast
qed

theorem reads_leave_the_store_witness:
  "list_all (\<lambda>r. \<not> is_write r)
     [GetInsights None, GetHealthData None,
      PostChat (env_at 3000 ''id-3'') (Inr \<lparr>ch_message = ''summary'', ch_sessionId = None, ch_userId = None\<rparr>),
      GetChatHistory ''default'']
   \<and> get_health_data
       (foldl (step sample_toString)
          (run sample_toString
             [PostHealthData (env_at 2000 ''id-1'') (Inr (input_of Weight (VNum (Fin 70)) ''kg'')),
              PostHealthData (env_at 1000 ''id-2'') (Inr (input_of Weight (VNum (Fin 68)) ''kg''))])
          [GetInsights None, GetHealthData None,
           PostChat (env_at 3000 ''id-3'') (Inr \<lparr>ch_message = ''summary'', ch_sessionId = None, ch_userId = None\<rparr>),
           GetChatHistory ''default''])
       None
     = [stored ''id-1'' Weight (VNum (Fin 70)) ''kg'' 2000,
        stored ''id-2'' Weight (VNum (Fin 68)) ''kg'' 1000]
   \<and> get_health_data
       (run sample_toString
          [PostHealthData (env_at 2000 ''id-1'') (Inr (input_of Weight (VNum (Fin 70)) ''kg'')),
           PostHealthData (env_at 1000 ''id-2'') (Inr (input_of Weight (VNum (Fin 68)) ''kg''))])
       None
     = [stored ''id-1'' Weight (VNum (Fin 70)) ''kg'' 2000,
        stored ''id-2'' Weight (VNum (Fin 68)) ''kg'' 1000]
   \<and> arrays
       (fst (get_insights sample_toString
          (run sample_toString
             [PostHealthData (env_at 2000 ''id-1'') (Inr (input_of Weight (VNum (Fin 70)) ''kg'')),
              PostHealthData (env_at 1000 ''id-2'') (Inr (input_of Weight (VNum (Fin 68)) ''kg''))])
          None))
     = [[stored ''id-1'' Weight (VNum (Fin 70)) ''kg'' 2000,
         stored ''id-2'' Weight (VNum (Fin 68)) ''kg'' 1000],
        [stored ''id-2'' Weight (VNum (Fin 68)) ''kg'' 1000,
         stored ''id-1'' Weight (VNum (Fin 70)) ''kg'' 2000]]"
proof -
  let ?reads = "[GetInsights None, GetHealthData None,
      PostChat (env_at 3000 ''id-3'') (Inr \<lparr>ch_message = ''summary'', ch_sessionId = None, ch_userId = None\<rparr>),
      GetChatHistory ''default'']"
  let ?rs = "[PostHealthData (env_at 2000 ''id-1'') (Inr (input_of Weight (VNum (Fin 70)) ''kg'')),
              PostHealthData (env_at 1000 ''id-2'') (Inr (input_of Weight (VNum (Fin 68)) ''kg''))]"
  have h: "list_all (\<lambda>r. \<not> is_write r) ?reads" by simp
  have d: "get_health_data (run sample_toString ?rs) None
     = [stored ''id-1'' Weight (VNum (Fin 70)) ''kg'' 2000,
        stored ''id-2'' Weight (VNum (Fin 68)) ''kg'' 1000]" by code_simp
  have a: "arrays (fst (get_insights sample_toString (run sample_toString ?rs) None))
     = [[stored ''id-1'' Weight (VNum (Fin 70)) ''kg'' 2000,
         stored ''id-2'' Weight (VNum (Fin 68)) ''kg'' 1000],
        [stored ''id-2'' Weight (VNum (Fin 68)) ''kg'' 1000,
         stored ''id-1'' Weight (VNum (Fin 70)) ''kg'' 2000]]" by code_simp
  from reads_leave_the_store[OF h, of sample_toString ?rs None None]
  have "get_health_data (foldl (step sample_toString) (run sample_toString ?rs) ?reads) None
      = get_health_data (run sample_toString ?rs) None" by blast
  then show ?thesis using h d a by (simp only: simp_thms)
qed

end
